theory Spec2Isabelle
  imports Main "HOL-Library.AList"
begin

section \<open>Data model\<close>

text \<open>
  \<open>RawValue\<close> (types.ts) is the JSON value tree of a Coda cell. A JavaScript number is a
  double; the model keeps the number type abstract (\<open>'n\<close>) and takes the few built-ins the
  code applies to numbers as a record of operations. \<open>VUndefined\<close> stands for the
  JavaScript value \<open>undefined\<close>, which the code tests for explicitly although the declared
  type does not list it. An object is an association list in property order; a well-formed
  object has distinct keys.
\<close>

datatype 'n RawValue =
    VUndefined
  | VNull
  | VStr string
  | VNum 'n
  | VBool bool
  | VArr "'n RawValue list"
  | VObj "(string \<times> 'n RawValue) list"

text \<open>The built-ins on numbers: \<open>Number(s)\<close>, \<open>isNaN(n)\<close>, the literal \<open>0\<close> and the
  conversion of a number to a string inside a template literal.\<close>

record 'n number_ops =
  toNumber :: "string \<Rightarrow> 'n"
  isNaN :: "'n \<Rightarrow> bool"
  zero :: 'n
  numToString :: "'n \<Rightarrow> string"

text \<open>\<open>obj[key] = v\<close> on a plain object: an existing property is overwritten in place, a new
  one is appended.\<close>

definition obj_set :: "string \<Rightarrow> 'v \<Rightarrow> (string \<times> 'v) list \<Rightarrow> (string \<times> 'v) list" where
  "obj_set key v obj = AList.update key v obj"

text \<open>\<open>String.prototype.toLowerCase\<close> on the ASCII letters. JavaScript also folds
  non-ASCII letters, but no non-ASCII character folds to one of the letters of
  \<open>true\<close> or \<open>false\<close>, so the comparisons below are decided by the ASCII part.\<close>

definition lowerChar :: "char \<Rightarrow> char" where
  "lowerChar c =
     (case map_of (zip ''ABCDEFGHIJKLMNOPQRSTUVWXYZ'' ''abcdefghijklmnopqrstuvwxyz'') c of
        Some d \<Rightarrow> d
      | None \<Rightarrow> c)"

definition toLowerCase :: "string \<Rightarrow> string" where
  "toLowerCase s = map lowerChar s"

section \<open>Type guards (normalize-utils.ts)\<close>

definition isRawImage :: "'n RawValue \<Rightarrow> bool" where
  "isRawImage v =
     (case v of
        VObj kvs \<Rightarrow> map_of kvs ''@type'' = Some (VStr ''ImageObject'')
      | _ \<Rightarrow> False)"

definition isRawRowReference :: "'n RawValue \<Rightarrow> bool" where
  "isRawRowReference v =
     (case v of
        VObj kvs \<Rightarrow>
          map_of kvs ''@type'' = Some (VStr ''StructuredValue'') \<and>
          map_of kvs ''additionalType'' = Some (VStr ''row'')
      | _ \<Rightarrow> False)"

section \<open>Value normalizer (normalizeEmptyToObject)\<close>

definition webPage :: "string \<Rightarrow> 'n RawValue" where
  "webPage u =
     VObj [(''@context'', VStr ''http://schema.org/''), (''@type'', VStr ''WebPage''),
           (''url'', VStr u)]"

definition person :: "string \<Rightarrow> 'n RawValue" where
  "person n =
     VObj [(''@context'', VStr ''http://schema.org/''), (''@type'', VStr ''Person''),
           (''name'', VStr n)]"

text \<open>
  The body of the \<open>for\<close> statement of \<open>normalizeEmptyToObject\<close> for one entry: \<open>Some v\<close> is the
  assignment \<open>result[key] = v\<close>, \<open>None\<close> is a branch that assigns nothing. The first
  argument is \<open>columnTypes[key]\<close>, \<open>None\<close> when the column has no declared type.
\<close>

definition normalizeCell ::
  "'n number_ops \<Rightarrow> string option \<Rightarrow> 'n RawValue \<Rightarrow> 'n RawValue option" where
  "normalizeCell ops columnType value =
     (if columnType = Some ''link'' then
        (if value = VNull \<or> value = VUndefined \<or> value = VStr '''' then Some (webPage '''')
         else (case value of VStr s \<Rightarrow> Some (webPage s) | _ \<Rightarrow> None))
      else if columnType = Some ''number'' \<or> columnType = Some ''slider''
              \<or> columnType = Some ''currency'' then
        (case value of
           VNum n \<Rightarrow> None
         | VStr s \<Rightarrow>
             Some (VNum (if isNaN ops (toNumber ops s) then zero ops else toNumber ops s))
         | VNull \<Rightarrow> Some (VNum (zero ops))
         | VUndefined \<Rightarrow> Some (VNum (zero ops))
         | _ \<Rightarrow> Some (VNum (zero ops)))
      else if columnType = Some ''boolean'' \<or> columnType = Some ''checkbox'' then
        (case value of
           VBool b \<Rightarrow> None
         | VStr s \<Rightarrow>
             (if toLowerCase s = ''true'' then Some (VBool True)
              else if toLowerCase s = ''false'' then Some (VBool False)
              else Some VNull)
         | VNull \<Rightarrow> Some VNull
         | VUndefined \<Rightarrow> Some VNull
         | _ \<Rightarrow> Some VNull)
      else if columnType = Some ''person'' then
        (if value = VNull \<or> value = VUndefined \<or> value = VStr '''' then Some (person '''')
         else (case value of VStr s \<Rightarrow> Some (person s) | _ \<Rightarrow> None))
      else if columnType = Some ''image'' then
        (case value of
           VArr xs \<Rightarrow> None
         | _ \<Rightarrow>
             (if value = VNull \<or> value = VUndefined \<or> value = VStr '''' then Some (VArr [])
              else if isRawImage value then Some (VArr [value])
              else Some (VArr [])))
      else if columnType = Some ''lookup'' then
        (case value of
           VArr xs \<Rightarrow> None
         | _ \<Rightarrow>
             (if value = VNull \<or> value = VUndefined \<or> value = VStr '''' then Some (VArr [])
              else if isRawRowReference value then Some (VArr [value])
              else Some (VArr [])))
      else None)"

text \<open>\<open>result\<close> starts as a copy of \<open>values\<close>; the statement runs over the entries of
  \<open>values\<close> and assigns into \<open>result\<close>.\<close>

definition normalizeEmptyToObject ::
  "'n number_ops \<Rightarrow> (string \<times> 'n RawValue) list \<Rightarrow> (string \<times> string) list
     \<Rightarrow> (string \<times> 'n RawValue) list" where
  "normalizeEmptyToObject ops values columnTypes =
     fold (\<lambda>(key, value) result.
             case normalizeCell ops (map_of columnTypes key) value of
               None \<Rightarrow> result
             | Some v \<Rightarrow> obj_set key v result)
          values values"

text \<open>The value an entry has after that body: the assigned one, or the old one.\<close>

definition cellResult ::
  "'n number_ops \<Rightarrow> (string \<times> string) list \<Rightarrow> string \<Rightarrow> 'n RawValue \<Rightarrow> 'n RawValue" where
  "cellResult ops columnTypes key value =
     (case normalizeCell ops (map_of columnTypes key) value of None \<Rightarrow> value | Some v \<Rightarrow> v)"

section \<open>String sanitizer (normalize-utils.ts)\<close>

definition fence :: string where
  "fence = ''```''"

text \<open>
  \<open>cleanString\<close> matches the regular expression \<open>^```(.*)```$\<close> with the flag \<open>s\<close>: the
  two anchors bind the match to the whole string, the dot matches every character (line
  breaks too) and the star is greedy. After the leading marker the matcher lets the group
  take \<open>n\<close> characters, longest first, and succeeds when what is left is exactly the
  closing marker; \<open>dotStar\<close> is that backtracking.
\<close>

fun dotStar :: "nat \<Rightarrow> string \<Rightarrow> string option" where
  "dotStar 0 rest = (if rest = fence then Some [] else None)"
| "dotStar (Suc n) rest =
     (if drop (Suc n) rest = fence then Some (take (Suc n) rest) else dotStar n rest)"

definition cleanString :: "string \<Rightarrow> string" where
  "cleanString value =
     (if take 3 value = fence then
        (case dotStar (length value - 3) (drop 3 value) of
           Some inner \<Rightarrow> inner
         | None \<Rightarrow> value)
      else value)"

fun cleanValue :: "'n RawValue \<Rightarrow> 'n RawValue" where
  "cleanValue VNull = VNull"
| "cleanValue VUndefined = VNull"
| "cleanValue (VStr s) = VStr (cleanString s)"
| "cleanValue (VNum n) = VNum n"
| "cleanValue (VBool b) = VBool b"
| "cleanValue (VArr items) = VArr (map cleanValue items)"
| "cleanValue (VObj kvs) =
     VObj (fold (\<lambda>(k, v) result. obj_set k (cleanValue v) result) kvs [])"

definition cleanValues :: "(string \<times> 'n RawValue) list \<Rightarrow> (string \<times> 'n RawValue) list" where
  "cleanValues values =
     fold (\<lambda>(key, value) result. obj_set key (cleanValue value) result) values []"

section \<open>Typed accessors (normalize-utils.ts)\<close>

text \<open>Reading a property: \<open>undefined\<close> when the object has no such property.\<close>

definition obj_get :: "(string \<times> 'n RawValue) list \<Rightarrow> string \<Rightarrow> 'n RawValue" where
  "obj_get kvs k = (case map_of kvs k of Some v \<Rightarrow> v | None \<Rightarrow> VUndefined)"

text \<open>\<open>getImageUrl\<close> returns \<open>value.url\<close> or \<open>null\<close>; the result is kept as a value, with
  \<open>VNull\<close> for \<open>null\<close>. An empty list passes the first two tests and is not an image
  (a list has no \<open>@type\<close> property), so it ends at the final \<open>return null\<close>; so do
  the non-empty strings, the numbers and the booleans.\<close>

fun getImageUrl :: "'n RawValue \<Rightarrow> 'n RawValue" where
  "getImageUrl VNull = VNull"
| "getImageUrl VUndefined = VNull"
| "getImageUrl (VStr s) = VNull"
| "getImageUrl (VArr (first # others)) = getImageUrl first"
| "getImageUrl (VArr []) = VNull"
| "getImageUrl (VObj kvs) = (if isRawImage (VObj kvs) then obj_get kvs ''url'' else VNull)"
| "getImageUrl (VNum n) = VNull"
| "getImageUrl (VBool b) = VNull"

section \<open>Loader construction (codaLoader)\<close>

text \<open>The six environment variables of \<open>import.meta.env\<close> the loader reads; \<open>None\<close> is an
  unset variable.\<close>

record ImportMetaEnv =
  CODA_API_TOKEN :: "string option"
  PUBLIC_CODA_API_TOKEN :: "string option"
  CODA_DOC_ID :: "string option"
  PUBLIC_CODA_DOC_ID :: "string option"
  CODA_TABLE_ID :: "string option"
  PUBLIC_CODA_TABLE_ID :: "string option"

datatype 'n Query = QueryString string | QueryFilter string "'n RawValue list"

text \<open>\<open>CodaLoaderOptions\<close>: every option may be left out (\<open>None\<close> is \<open>undefined\<close>).\<close>

record 'n CodaLoaderOptions =
  token :: "string option"
  docId :: "string option"
  tableIdOrName :: "string option"
  query :: "'n Query option"
  sortBy :: "string option"
  limit :: "'n option"
  cleanStrings :: "bool option"
  maxLookupDepth :: "int option"

datatype AstroError = AstroError string

text \<open>The loader object is the pair of closures \<open>load\<close> and \<open>schema\<close>; it is represented
  by its name and the variables the closures capture.\<close>

record 'n Loader =
  loaderName :: string
  loaderToken :: string
  loaderDocId :: string
  loaderTable :: string
  loaderQuery :: "'n Query option"
  loaderSortBy :: "string option"
  loaderLimit :: "'n option"
  loaderCleanStrings :: bool
  loaderMaxLookupDepth :: int

text \<open>Truthiness of an optional string: \<open>undefined\<close> and the empty string are falsy.\<close>

definition truthy :: "string option \<Rightarrow> bool" where
  "truthy s = (case s of None \<Rightarrow> False | Some t \<Rightarrow> t \<noteq> [])"

text \<open>\<open>a || b\<close> on optional strings.\<close>

definition js_or :: "string option \<Rightarrow> string option \<Rightarrow> string option" where
  "js_or a b = (if truthy a then a else b)"

text \<open>A destructuring default \<open>{x = d}\<close>: the default is taken only when the option is
  \<open>undefined\<close>.\<close>

definition withDefault :: "'a option \<Rightarrow> 'a \<Rightarrow> 'a" where
  "withDefault opt d = (case opt of None \<Rightarrow> d | Some v \<Rightarrow> v)"

definition resolvedToken :: "ImportMetaEnv \<Rightarrow> 'n CodaLoaderOptions \<Rightarrow> string option" where
  "resolvedToken env opts =
     (case token opts of
        None \<Rightarrow> js_or (CODA_API_TOKEN env) (PUBLIC_CODA_API_TOKEN env)
      | Some t \<Rightarrow> Some t)"

definition resolvedDocId :: "ImportMetaEnv \<Rightarrow> 'n CodaLoaderOptions \<Rightarrow> string option" where
  "resolvedDocId env opts =
     (case docId opts of
        None \<Rightarrow> js_or (CODA_DOC_ID env) (PUBLIC_CODA_DOC_ID env)
      | Some d \<Rightarrow> Some d)"

definition resolvedTable :: "ImportMetaEnv \<Rightarrow> 'n CodaLoaderOptions \<Rightarrow> string option" where
  "resolvedTable env opts =
     (case tableIdOrName opts of
        None \<Rightarrow> js_or (CODA_TABLE_ID env) (PUBLIC_CODA_TABLE_ID env)
      | Some t \<Rightarrow> Some t)"

definition missingToken :: string where
  "missingToken = ''Missing Coda API token. Set it in the CODA_API_TOKEN or PUBLIC_CODA_API_TOKEN environment variable or pass it as an option.''"

definition missingDocId :: string where
  "missingDocId = ''Missing Coda doc ID. Set it in the CODA_DOC_ID or PUBLIC_CODA_DOC_ID environment variable or pass it as an option.''"

definition missingTable :: string where
  "missingTable = ''Missing Coda table ID or name. Set it in the CODA_TABLE_ID or PUBLIC_CODA_TABLE_ID environment variable or pass it as an option.''"

text \<open>
  \<open>codaLoader\<close> resolves the three identifiers, throws on the first falsy one and
  otherwise returns the loader object. The function has no network parameter: its body
  contains no request, the requests of a load are made by the \<open>load\<close> closure of the
  returned object.
\<close>

definition codaLoader :: "ImportMetaEnv \<Rightarrow> 'n CodaLoaderOptions \<Rightarrow> AstroError + 'n Loader" where
  "codaLoader env opts =
     (if \<not> truthy (resolvedToken env opts) then Inl (AstroError missingToken)
      else if \<not> truthy (resolvedDocId env opts) then Inl (AstroError missingDocId)
      else if \<not> truthy (resolvedTable env opts) then Inl (AstroError missingTable)
      else Inr \<lparr>loaderName = ''coda-loader'',
                loaderToken = the (resolvedToken env opts),
                loaderDocId = the (resolvedDocId env opts),
                loaderTable = the (resolvedTable env opts),
                loaderQuery = query opts,
                loaderSortBy = sortBy opts,
                loaderLimit = limit opts,
                loaderCleanStrings = withDefault (cleanStrings opts) True,
                loaderMaxLookupDepth = withDefault (maxLookupDepth opts) 0\<rparr>)"

section \<open>Rows, caches and the expansion session\<close>

text \<open>\<open>CodaRow\<close> (types.ts). The fields \<open>id\<close>, \<open>type\<close> and \<open>values\<close> are \<open>row_id\<close>,
  \<open>row_type\<close> and \<open>row_values\<close> here.\<close>

record 'n CodaRow =
  row_id :: string
  row_type :: string
  href :: string
  name :: "string option"
  index :: 'n
  createdAt :: string
  updatedAt :: string
  browserLink :: string
  row_values :: "(string \<times> 'n RawValue) list"

text \<open>What \<open>fetchTableData\<close> throws: the time-out of a page request, a response that is
  not ok (status and status text), or whatever else \<open>fetch\<close> or \<open>response.json\<close>
  rejected with.\<close>

datatype fetch_error =
    RequestTimedOut string
  | FailedToFetch nat string
  | Rejected string

text \<open>The calls of the logger in \<open>fetchTableData\<close>, \<open>expandSingleReference\<close> and
  \<open>expandLookups\<close>, one constructor per message, with the values the message
  interpolates. The progress lines of \<open>expandLookups\<close> are written when the wall clock
  says so and are left out, as is the elapsed time of its closing line.\<close>

datatype log_entry =
    Debug_FetchingPage string nat
  | Debug_FetchedRows nat string nat
  | Info_LoadedTable string nat
  | Debug_FoundInTableCache string
  | Warn_FailedToFetchTable string fetch_error
  | Debug_RowNotFound string
  | Debug_ExpandedRef string int
  | Info_ExpandingLookups int nat
  | Info_ExpansionCompleted nat nat nat
  | Debug_SampleRow string

text \<open>\<open>ProcessingContext\<close>: the plain objects \<open>cache\<close> and \<open>tableCache\<close> are association
  lists, a cached \<open>null\<close> is \<open>Some None\<close>, a \<open>Map\<close> of rows is an association list
  from row id to row. A key is looked up among the own properties of the object: table
  ids and reference keys are taken not to be names of members of \<open>Object.prototype\<close>.
  The session is the context together with what the logger has received.\<close>

record 'n ProcessingContext =
  processedRefs :: "string set"
  cache :: "(string \<times> 'n CodaRow option) list"
  tableCache :: "(string \<times> (string \<times> 'n CodaRow) list) list"
  requestCount :: nat

record 'n session = "'n ProcessingContext" +
  logged :: "log_entry list"

definition logs :: "log_entry \<Rightarrow> 'n session \<Rightarrow> 'n session" where
  "logs e st = st\<lparr>logged := logged st @ [e]\<rparr>"

text \<open>What one page request of the source API comes back with: \<open>fetch\<close> rejects, the
  request is aborted by the 30 second timer, the response is not ok, the body cannot be
  read as a page of rows, or a page of rows with an optional continuation token.\<close>

datatype 'n http_result =
    FetchRejected string
  | FetchAborted
  | HttpError nat string
  | BodyRejected string
  | Page "'n CodaRow list" "string option"

text \<open>
  The environment of an expansion: the number built-ins, the source API and a bound on
  the pages of one table. \<open>api k tableId pageToken\<close> is the outcome of a page request for
  \<open>tableId\<close> made during the \<open>k\<close>-th table fetch of the session (\<open>k\<close> is the request counter),
  so the API may answer differently from one fetch to the next; document id and token
  are the same in every request and are not written. A table whose pages do not end
  within \<open>pageFuel\<close> requests is a fetch that does not return (\<open>None\<close>).
\<close>

record 'n env =
  numOps :: "'n number_ops"
  api :: "nat \<Rightarrow> string \<Rightarrow> string option \<Rightarrow> 'n http_result"
  pageFuel :: nat

section \<open>Table fetcher (fetchTableData)\<close>

text \<open>The \<open>do \<dots> while (pageToken)\<close> statement, which runs as long as the response
  carries a continuation token; \<open>rowsMap.set(row.id, row)\<close> for every row of a page.\<close>

fun fetchPages ::
  "nat \<Rightarrow> (string option \<Rightarrow> 'n http_result) \<Rightarrow> string \<Rightarrow> string option \<Rightarrow> nat
     \<Rightarrow> (string \<times> 'n CodaRow) list \<Rightarrow> log_entry list
     \<Rightarrow> ((fetch_error + (string \<times> 'n CodaRow) list) \<times> log_entry list) option" where
  "fetchPages 0 request tableId pageToken pageCount rowsMap lg = None"
| "fetchPages (Suc fuel) request tableId pageToken pageCount rowsMap lg =
     (let lg1 = lg @ [Debug_FetchingPage tableId (pageCount + 1)] in
      case request (if truthy pageToken then pageToken else None) of
        FetchRejected msg \<Rightarrow> Some (Inl (Rejected msg), lg1)
      | FetchAborted \<Rightarrow> Some (Inl (RequestTimedOut tableId), lg1)
      | HttpError status statusText \<Rightarrow> Some (Inl (FailedToFetch status statusText), lg1)
      | BodyRejected msg \<Rightarrow> Some (Inl (Rejected msg), lg1)
      | Page items nextPageToken \<Rightarrow>
          (let rowsMap1 = fold (\<lambda>row m. obj_set (row_id row) row m) items rowsMap;
               lg2 = lg1 @ [Debug_FetchedRows (length items) tableId (length rowsMap1)]
           in if truthy nextPageToken
              then fetchPages fuel request tableId nextPageToken (pageCount + 1) rowsMap1 lg2
              else Some (Inr rowsMap1, lg2)))"

definition fetchTableData ::
  "nat \<Rightarrow> (string option \<Rightarrow> 'n http_result) \<Rightarrow> string \<Rightarrow> log_entry list
     \<Rightarrow> ((fetch_error + (string \<times> 'n CodaRow) list) \<times> log_entry list) option" where
  "fetchTableData fuel request tableId lg =
     (case fetchPages fuel request tableId None 0 [] lg of
        None \<Rightarrow> None
      | Some (Inl err, lg1) \<Rightarrow> Some (Inl err, lg1)
      | Some (Inr rowsMap, lg1) \<Rightarrow>
          Some (Inr rowsMap, lg1 @ [Info_LoadedTable tableId (length rowsMap)]))"

text \<open>
  The page requests of one table fetch, as the proofs about failing fetches need them:
  \<open>served request pageToken ps\<close> says that, from the continuation token \<open>pageToken\<close> on,
  the requests are answered one after the other with the pages \<open>ps\<close>, each of them
  carrying a continuation token, and \<open>tokenAfter pageToken ps\<close> is the token the last of
  them carries, with which the next page is requested.
\<close>

fun served ::
  "(string option \<Rightarrow> 'n http_result) \<Rightarrow> string option
     \<Rightarrow> ('n CodaRow list \<times> string option) list \<Rightarrow> bool" where
  "served request pageToken [] = True"
| "served request pageToken ((items, nextPageToken) # ps) =
     (request (if truthy pageToken then pageToken else None) = Page items nextPageToken
      \<and> truthy nextPageToken \<and> served request nextPageToken ps)"

fun tokenAfter ::
  "string option \<Rightarrow> ('n CodaRow list \<times> string option) list \<Rightarrow> string option" where
  "tokenAfter pageToken [] = pageToken"
| "tokenAfter pageToken ((items, nextPageToken) # ps) = tokenAfter nextPageToken ps"

section \<open>Reference resolver (expandSingleReference, first part)\<close>

text \<open>The own properties of an object value.\<close>

definition props :: "'n RawValue \<Rightarrow> (string \<times> 'n RawValue) list" where
  "props v = (case v of VObj kvs \<Rightarrow> kvs | _ \<Rightarrow> [])"

text \<open>The string a value becomes in a template literal or as a property key.\<close>

fun joinComma :: "string list \<Rightarrow> string" where
  "joinComma [] = []"
| "joinComma [s] = s"
| "joinComma (s # t # rest) = s @ '','' @ joinComma (t # rest)"

fun js_String :: "'n number_ops \<Rightarrow> 'n RawValue \<Rightarrow> string" where
  "js_String nops VUndefined = ''undefined''"
| "js_String nops VNull = ''null''"
| "js_String nops (VStr s) = s"
| "js_String nops (VNum n) = numToString nops n"
| "js_String nops (VBool b) = (if b then ''true'' else ''false'')"
| "js_String nops (VArr items) =
     joinComma (map (\<lambda>x. case x of VNull \<Rightarrow> [] | VUndefined \<Rightarrow> [] | _ \<Rightarrow> js_String nops x)
                  items)"
| "js_String nops (VObj kvs) = ''[object Object]''"

definition ref_tableId :: "'n number_ops \<Rightarrow> 'n RawValue \<Rightarrow> string" where
  "ref_tableId nops reference = js_String nops (obj_get (props reference) ''tableId'')"

definition ref_rowId :: "'n number_ops \<Rightarrow> 'n RawValue \<Rightarrow> string" where
  "ref_rowId nops reference = js_String nops (obj_get (props reference) ''rowId'')"

definition refKey :: "'n number_ops \<Rightarrow> 'n RawValue \<Rightarrow> string" where
  "refKey nops reference = ref_tableId nops reference @ '':'' @ ref_rowId nops reference"

text \<open>\<open>map.get(reference.rowId)\<close>: the keys of the map are strings, so only a string
  finds a row.\<close>

definition table_get :: "(string \<times> 'n CodaRow) list \<Rightarrow> 'n RawValue \<Rightarrow> 'n CodaRow option" where
  "table_get rowsMap rowId = (case rowId of VStr s \<Rightarrow> map_of rowsMap s | _ \<Rightarrow> None)"

text \<open>The end of the resolution: \<open>null\<close> is reported and returned, a row goes on to be
  expanded.\<close>

definition resolved ::
  "string \<Rightarrow> 'n CodaRow option \<Rightarrow> 'n session \<Rightarrow> ('n CodaRow option \<times> 'n session) option" where
  "resolved key referencedRow st =
     (case referencedRow of
        None \<Rightarrow> Some (None, logs (Debug_RowNotFound key) st)
      | Some r \<Rightarrow> Some (Some r, st))"

text \<open>
  The part of \<open>expandSingleReference\<close> between the cycle check and the marking of the
  reference: the three lookup steps, the \<open>try\<close>/\<open>catch\<close> around the table fetch and the
  test for \<open>null\<close>. The result \<open>Some (None, st)\<close> is \<open>return null\<close>, \<open>Some (Some r, st)\<close>
  is the referenced row with which the function goes on, \<open>None\<close> is a table fetch that
  does not return.
\<close>

definition resolveReference ::
  "'n env \<Rightarrow> 'n RawValue \<Rightarrow> 'n session \<Rightarrow> ('n CodaRow option \<times> 'n session) option" where
  "resolveReference e reference st =
     (let tableId = ref_tableId (numOps e) reference;
          rowId = obj_get (props reference) ''rowId'';
          key = refKey (numOps e) reference;
          fromTable = (case map_of (tableCache st) tableId of
                         None \<Rightarrow> None
                       | Some rowsMap \<Rightarrow> table_get rowsMap rowId);
          st1 = (if fromTable \<noteq> None then logs (Debug_FoundInTableCache key) st else st);
          referencedRow = (if fromTable = None \<and> map_of (cache st1) key \<noteq> None
                           then the (map_of (cache st1) key) else fromTable)
      in if referencedRow = None \<and> map_of (cache st1) key = None then
           (case map_of (tableCache st1) tableId of
              Some rowsMap \<Rightarrow>
                resolved key (table_get rowsMap rowId)
                  (st1\<lparr>cache := obj_set key (table_get rowsMap rowId) (cache st1)\<rparr>)
            | None \<Rightarrow>
                (let st2 = st1\<lparr>requestCount := requestCount st1 + 1\<rparr> in
                 case fetchTableData (pageFuel e) (api e (requestCount st2) tableId) tableId
                        (logged st2) of
                   None \<Rightarrow> None
                 | Some (Inl err, lg) \<Rightarrow>
                     Some (None, st2\<lparr>cache := obj_set key None (cache st2),
                                     logged := lg @ [Warn_FailedToFetchTable tableId err]\<rparr>)
                 | Some (Inr rowsMap, lg) \<Rightarrow>
                     resolved key (table_get rowsMap rowId)
                       (st2\<lparr>cache := obj_set key (table_get rowsMap rowId) (cache st2),
                            tableCache := obj_set tableId rowsMap (tableCache st2),
                            logged := lg\<rparr>)))
         else resolved key referencedRow st1)"

section \<open>Lookup expansion engine\<close>

text \<open>\<open>{...reference, values: {id, values}}\<close>.\<close>

definition expandedReference :: "'n RawValue \<Rightarrow> 'n CodaRow \<Rightarrow> 'n RawValue" where
  "expandedReference reference deeperExpandedRow =
     VObj (obj_set ''values''
             (VObj [(''id'', VStr (row_id deeperExpandedRow)),
                    (''values'', VObj (row_values deeperExpandedRow))])
             (props reference))"

text \<open>
  The two functions of the source and their two \<open>for\<close> statements, \<open>expandEntries\<close> over
  the entries of \<open>row.values\<close> and \<open>expandItems\<close> over the items of a list value, with
  the variables they update as arguments. Depths are integers. \<open>fuel\<close> bounds the nesting of
  \<open>expandSingleReference\<close> inside itself: it is spent only where \<open>expandSingleReference\<close>
  calls \<open>expandRowLookups\<close>, and \<open>None\<close> is an expansion that has not returned within
  that nesting (or that waits for a table fetch that does not return).
\<close>

definition isArray :: "'n RawValue \<Rightarrow> bool" where
  "isArray v = (case v of VArr items \<Rightarrow> True | _ \<Rightarrow> False)"

definition arrayItems :: "'n RawValue \<Rightarrow> 'n RawValue list" where
  "arrayItems v = (case v of VArr items \<Rightarrow> items | _ \<Rightarrow> [])"

function expandSingleReference ::
      "'n env \<Rightarrow> nat \<Rightarrow> 'n RawValue \<Rightarrow> 'n session \<Rightarrow> int \<Rightarrow> int
         \<Rightarrow> ('n RawValue option \<times> 'n session) option"
  and expandRowLookups ::
      "'n env \<Rightarrow> nat \<Rightarrow> 'n CodaRow \<Rightarrow> 'n session \<Rightarrow> int \<Rightarrow> int
         \<Rightarrow> ('n CodaRow \<times> 'n session) option"
  and expandEntries ::
      "'n env \<Rightarrow> nat \<Rightarrow> (string \<times> 'n RawValue) list \<Rightarrow> (string \<times> 'n RawValue) list
         \<Rightarrow> 'n session \<Rightarrow> int \<Rightarrow> int
         \<Rightarrow> ((string \<times> 'n RawValue) list \<times> 'n session) option"
  and expandItems ::
      "'n env \<Rightarrow> nat \<Rightarrow> 'n RawValue list \<Rightarrow> 'n RawValue list \<Rightarrow> bool
         \<Rightarrow> 'n session \<Rightarrow> int \<Rightarrow> int
         \<Rightarrow> (('n RawValue list \<times> bool) \<times> 'n session) option"
where
  "expandSingleReference e fuel reference st currentDepth maxDepth =
     (if refKey (numOps e) reference \<in> processedRefs st then Some (None, st)
      else
        case resolveReference e reference st of
          None \<Rightarrow> None
        | Some (None, st1) \<Rightarrow> Some (None, st1)
        | Some (Some referencedRow, st1) \<Rightarrow>
            (case fuel of
               0 \<Rightarrow> None
             | Suc fuel1 \<Rightarrow>
                 (case expandRowLookups e fuel1 referencedRow
                         (st1\<lparr>processedRefs :=
                                insert (refKey (numOps e) reference) (processedRefs st1)\<rparr>)
                         (currentDepth + 1) maxDepth of
                    None \<Rightarrow> None
                  | Some (deeperExpandedRow, st2) \<Rightarrow>
                      Some (Some (expandedReference reference deeperExpandedRow),
                            logs (Debug_ExpandedRef (ref_rowId (numOps e) reference) currentDepth)
                              st2))))"
| "expandRowLookups e fuel row st currentDepth maxDepth =
     (if maxDepth \<le> 0 \<or> currentDepth \<ge> maxDepth then Some (row, st)
      else
        case expandEntries e fuel (row_values row) (row_values row) st currentDepth maxDepth of
          None \<Rightarrow> None
        | Some (expandedValues, st1) \<Rightarrow> Some (row\<lparr>row_values := expandedValues\<rparr>, st1))"
| "expandEntries e fuel [] expandedValues st currentDepth maxDepth =
     Some (expandedValues, st)"
| "expandEntries e fuel ((key, value) # entries) expandedValues st currentDepth maxDepth =
     (if isRawRowReference value then
        (case expandSingleReference e fuel value st currentDepth maxDepth of
           None \<Rightarrow> None
         | Some (None, st1) \<Rightarrow>
             expandEntries e fuel entries expandedValues st1 currentDepth maxDepth
         | Some (Some expandedRef, st1) \<Rightarrow>
             expandEntries e fuel entries (obj_set key expandedRef expandedValues) st1
               currentDepth maxDepth)
      else if isArray value then
        (case expandItems e fuel (arrayItems value) [] False st currentDepth maxDepth of
           None \<Rightarrow> None
         | Some ((expandedItems, hasExpanded), st1) \<Rightarrow>
             expandEntries e fuel entries
               (if hasExpanded then obj_set key (VArr expandedItems) expandedValues
                else expandedValues)
               st1 currentDepth maxDepth)
      else expandEntries e fuel entries expandedValues st currentDepth maxDepth)"
| "expandItems e fuel [] expandedItems hasExpanded st currentDepth maxDepth =
     Some ((expandedItems, hasExpanded), st)"
| "expandItems e fuel (item # items) expandedItems hasExpanded st currentDepth maxDepth =
     (if \<not> isRawRowReference item then
        expandItems e fuel items (expandedItems @ [item]) hasExpanded st currentDepth maxDepth
      else
        (case expandSingleReference e fuel item st currentDepth maxDepth of
           None \<Rightarrow> None
         | Some (None, st1) \<Rightarrow>
             expandItems e fuel items (expandedItems @ [item]) hasExpanded st1
               currentDepth maxDepth
         | Some (Some expandedRef, st1) \<Rightarrow>
             expandItems e fuel items (expandedItems @ [expandedRef]) True st1
               currentDepth maxDepth))"
  by pat_completeness auto

termination
  by (relation "inv_image (less_than <*lex*> less_than <*lex*> less_than)
        (\<lambda>x. case x of
               Inl (Inl (e, fuel, reference, st, currentDepth, maxDepth)) \<Rightarrow>
                 (fuel, 0::nat, 0::nat)
             | Inl (Inr (e, fuel, row, st, currentDepth, maxDepth)) \<Rightarrow>
                 (fuel, 3, 0)
             | Inr (Inl (e, fuel, entries, expandedValues, st, currentDepth, maxDepth)) \<Rightarrow>
                 (fuel, 2, length entries)
             | Inr (Inr (e, fuel, items, expandedItems, hasExpanded, st, currentDepth,
                         maxDepth)) \<Rightarrow>
                 (fuel, 1, length items))")
     auto

section \<open>Batch expansion (expandLookups)\<close>

text \<open>The \<open>for\<close> statement over the rows: the processed set is cleared before each row,
  the caches and the counter are carried on. In the model an expansion throws nothing,
  so the \<open>catch\<close> that would push the unexpanded row has no branch.\<close>

fun expandRows ::
  "'n env \<Rightarrow> nat \<Rightarrow> 'n CodaRow list \<Rightarrow> 'n CodaRow list \<Rightarrow> 'n session \<Rightarrow> int
     \<Rightarrow> ('n CodaRow list \<times> 'n session) option" where
  "expandRows e fuel [] expandedRows st maxDepth = Some (expandedRows, st)"
| "expandRows e fuel (row # rows) expandedRows st maxDepth =
     (case expandRowLookups e fuel row (st\<lparr>processedRefs := {}\<rparr>) 0 maxDepth of
        None \<Rightarrow> None
      | Some (expandedRow, st1) \<Rightarrow>
          expandRows e fuel rows (expandedRows @ [expandedRow]) st1 maxDepth)"

definition newSession :: "log_entry list \<Rightarrow> 'n session" where
  "newSession lg =
     \<lparr>processedRefs = {}, cache = [], tableCache = [], requestCount = 0, logged = lg\<rparr>"

definition cachedRowCount :: "(string \<times> (string \<times> 'n CodaRow) list) list \<Rightarrow> nat" where
  "cachedRowCount tables = fold (\<lambda>(tableId, rowsMap) total. total + length rowsMap) tables 0"

text \<open>\<open>expandLookups\<close> returns the rows; the model returns with them what the logger
  received during the call. The closing debug line prints the first expanded row, of
  which the entry keeps the id.\<close>

definition expandLookups ::
  "'n env \<Rightarrow> nat \<Rightarrow> 'n CodaRow list \<Rightarrow> int \<Rightarrow> ('n CodaRow list \<times> log_entry list) option"
  where
  "expandLookups e fuel rows maxDepth =
     (if maxDepth \<le> 0 then Some (rows, [])
      else
        case expandRows e fuel rows []
               (newSession [Info_ExpandingLookups maxDepth (length rows)]) maxDepth of
          None \<Rightarrow> None
        | Some (expandedRows, st) \<Rightarrow>
            Some (expandedRows,
                  logged st
                  @ [Info_ExpansionCompleted (requestCount st) (length (tableCache st))
                       (cachedRowCount (tableCache st))]
                  @ (if expandedRows \<noteq> [] then [Debug_SampleRow (row_id (hd expandedRows))]
                     else [])))"

section \<open>Reading the table fetches off the log\<close>

text \<open>\<open>fetchTableData\<close> announces every page request to the logger before it makes it,
  and the first page of a table is requested once in each call: the tables fetched during
  a session are the tables of the first-page lines of its log, in order.\<close>

definition fetchedTable :: "log_entry \<Rightarrow> string list" where
  "fetchedTable x =
     (case x of
        Debug_FetchingPage tableId page \<Rightarrow> if page = 1 then [tableId] else []
      | _ \<Rightarrow> [])"

definition tableFetches :: "log_entry list \<Rightarrow> string list" where
  "tableFetches lg = concat (map fetchedTable lg)"

text \<open>
  What a stretch of a session does to the caches, the counter and the table fetches, as
  the proofs about the caches need it: the tables \<open>ts\<close> were fetched, the counter rose by
  their number, what was in the two caches is still there, no table that was in the table
  cache was fetched, and, if every fetch of the table \<open>T\<close> succeeds, \<open>T\<close> was fetched at
  most once and is in the table cache if it was fetched.
\<close>

definition cacheStep :: "'n env \<Rightarrow> string \<Rightarrow> 'n session \<Rightarrow> 'n session \<Rightarrow> bool" where
  "cacheStep e T st st' \<longleftrightarrow>
     (\<exists>ts. tableFetches (logged st') = tableFetches (logged st) @ ts
          \<and> requestCount st' = requestCount st + length ts
          \<and> (\<forall>t rowsMap. map_of (tableCache st) t = Some rowsMap \<longrightarrow>
                map_of (tableCache st') t = Some rowsMap \<and> t \<notin> set ts)
          \<and> (\<forall>k v. map_of (cache st) k = Some v \<longrightarrow> map_of (cache st') k = Some v)
          \<and> ((\<forall>k. \<exists>rowsMap new.
                  fetchTableData (pageFuel e) (api e k T) T [] = Some (Inr rowsMap, new))
              \<longrightarrow> count_list ts T \<le> 1
                  \<and> (T \<in> set ts \<longrightarrow> map_of (tableCache st') T \<noteq> None)))"

section \<open>Sample data for concrete runs\<close>

text \<open>A stand-in for the number built-ins on \<open>int\<close>, for concrete runs: \<open>-1\<close> plays the
  part of \<open>NaN\<close> and only the numeral \<open>42\<close> parses.\<close>

definition sampleOps :: "int number_ops" where
  "sampleOps =
     \<lparr>toNumber = (\<lambda>s. if s = ''42'' then 42 else - 1), isNaN = (\<lambda>n. n = - 1), zero = 0,
      numToString = (\<lambda>n. if n = 42 then ''42'' else ''0'')\<rparr>"

text \<open>A row with the given id and values, and a row reference with the given table and
  row ids.\<close>

definition mkRow :: "string \<Rightarrow> (string \<times> int RawValue) list \<Rightarrow> int CodaRow" where
  "mkRow i vs =
     \<lparr>row_id = i, row_type = ''row'', href = [], name = None, index = 0, createdAt = [],
      updatedAt = [], browserLink = [], row_values = vs\<rparr>"

definition mkRef :: "string \<Rightarrow> string \<Rightarrow> int RawValue" where
  "mkRef t r =
     VObj [(''@type'', VStr ''StructuredValue''), (''additionalType'', VStr ''row''),
           (''tableId'', VStr t), (''rowId'', VStr r)]"

text \<open>A table \<open>T\<close> of three rows: \<open>A\<close> references \<open>B\<close>, \<open>B\<close> references \<open>A\<close>, and \<open>C\<close>
  references nothing.\<close>

definition rowA :: "int CodaRow" where
  "rowA = mkRow ''A'' [(''c-next'', mkRef ''T'' ''B'')]"

definition rowB :: "int CodaRow" where
  "rowB = mkRow ''B'' [(''c-next'', mkRef ''T'' ''A'')]"

definition rowC :: "int CodaRow" where
  "rowC = mkRow ''C'' [(''c-title'', VStr ''leaf'')]"

text \<open>A source API that serves the table \<open>T\<close> in one page and answers every other table
  with 404.\<close>

definition cyclicApi :: "nat \<Rightarrow> string \<Rightarrow> string option \<Rightarrow> int http_result" where
  "cyclicApi k tableId pageToken =
     (if tableId = ''T'' then Page [rowA, rowB, rowC] None else HttpError 404 ''Not Found'')"

definition cyclicEnv :: "int env" where
  "cyclicEnv = \<lparr>numOps = sampleOps, api = cyclicApi, pageFuel = 1\<rparr>"

text \<open>The session after the reference to \<open>C\<close> was expanded in a new session.\<close>

definition sessionAfterC :: "int session" where
  "sessionAfterC =
     \<lparr>processedRefs = {''T:C''},
      cache = [(''T:C'', Some rowC)],
      tableCache = [(''T'', [(''A'', rowA), (''B'', rowB), (''C'', rowC)])],
      requestCount = 1,
      logged = [Debug_FetchingPage ''T'' 1, Debug_FetchedRows 3 ''T'' 3,
                Info_LoadedTable ''T'' 3, Debug_ExpandedRef ''C'' 0]\<rparr>"




text \<open>A source API that serves the table \<open>T\<close> in one page, serves a first page of the
  table \<open>P\<close> and answers the request for its second page with 500, and answers every
  other table with 404.\<close>

definition flakyApi :: "nat \<Rightarrow> string \<Rightarrow> string option \<Rightarrow> int http_result" where
  "flakyApi k tableId pageToken =
     (if tableId = ''T'' then Page [rowA, rowB, rowC] None
      else if tableId = ''P'' then
        (if pageToken = None then Page [rowC] (Some ''p2'')
         else HttpError 500 ''Internal Server Error'')
      else HttpError 404 ''Not Found'')"

definition flakyEnv :: "int env" where
  "flakyEnv = \<lparr>numOps = sampleOps, api = flakyApi, pageFuel = 2\<rparr>"

section \<open>Assignments into an object while iterating over its own entries\<close>

lemma obj_set_middle:
  "key \<notin> fst ` set pre \<Longrightarrow>
     obj_set key w (pre @ (key, v) # post) = pre @ (key, w) # post"
  by (induction pre) (auto simp: obj_set_def)

lemma fold_assign_own_entries:
  assumes "distinct (map fst ys)" and "fst ` set pre \<inter> fst ` set ys = {}"
  shows "fold (\<lambda>(key, value) result.
                 case g key value of None \<Rightarrow> result | Some v \<Rightarrow> obj_set key v result)
              ys (pre @ ys)
         = pre @ map (\<lambda>(key, value).
                        (key, case g key value of None \<Rightarrow> value | Some v \<Rightarrow> v)) ys"
  using assms
proof (induction ys arbitrary: pre)
  case Nil
  then show ?case by simp
next
  case (Cons y ys)
  obtain k v where y: "y = (k, v)" by (cases y)
  let ?w = "case g k v of None \<Rightarrow> v | Some w \<Rightarrow> w"
  from Cons.prems y have k_pre: "k \<notin> fst ` set pre" by auto
  have step: "(case g k v of None \<Rightarrow> pre @ (k, v) # ys
                | Some w \<Rightarrow> obj_set k w (pre @ (k, v) # ys))
              = (pre @ [(k, ?w)]) @ ys"
    using obj_set_middle [OF k_pre] by (cases "g k v") simp_all
  from Cons.prems y have d: "distinct (map fst ys)"
    and disj: "fst ` set (pre @ [(k, ?w)]) \<inter> fst ` set ys = {}"
    by auto
  show ?case
    using Cons.IH [OF d disj] by (simp add: y step)
qed

lemma normalizeEmptyToObject_map:
  assumes "distinct (map fst values)"
  shows "normalizeEmptyToObject ops values columnTypes
         = map (\<lambda>(key, value). (key, cellResult ops columnTypes key value)) values"
  using fold_assign_own_entries [where pre = "[]" and ys = "values"
      and g = "\<lambda>key value. normalizeCell ops (map_of columnTypes key) value"] assms
  by (simp add: normalizeEmptyToObject_def cellResult_def)

lemma normalizeEmptyToObject_keys:
  "distinct (map fst values) \<Longrightarrow>
     map fst (normalizeEmptyToObject ops values columnTypes) = map fst values"
  by (simp add: normalizeEmptyToObject_map comp_def case_prod_beta)

lemma cellResult_idem:
  "cellResult ops columnTypes key (cellResult ops columnTypes key value)
   = cellResult ops columnTypes key value"
  by (cases "value")
     (auto simp: cellResult_def normalizeCell_def webPage_def person_def
           split: option.splits)

section \<open>Claims about the value normalizer\<close>

text \<open>
  C6. The value normalizer is idempotent: for every values mapping \<open>v\<close> (an object, so its
  keys are distinct) and every column-type mapping \<open>t\<close>, normalizing the normalized
  mapping again gives the normalized mapping.
\<close>

theorem normalize_idempotent:
  assumes "distinct (map fst v)"
  shows "normalizeEmptyToObject ops (normalizeEmptyToObject ops v t) t
         = normalizeEmptyToObject ops v t"
proof -
  have d': "distinct (map fst (normalizeEmptyToObject ops v t))"
    using assms by (simp add: normalizeEmptyToObject_keys)
  have "normalizeEmptyToObject ops (normalizeEmptyToObject ops v t) t
        = map (\<lambda>(key, value). (key, cellResult ops t key value))
            (map (\<lambda>(key, value). (key, cellResult ops t key value)) v)"
    using normalizeEmptyToObject_map [OF d'] normalizeEmptyToObject_map [OF assms]
    by simp
  also have "\<dots> = map (\<lambda>(key, value). (key, cellResult ops t key value)) v"
    by (simp add: case_prod_beta cellResult_idem)
  finally show ?thesis
    by (simp add: normalizeEmptyToObject_map [OF assms])
qed

theorem normalize_idempotent_witness:
  "distinct (map fst [(''c-link'', VStr ''''), (''c-num'', VStr ''abc''), (''c-bool'', VStr ''TRUE''),
                      (''c-img'', VNull), (''c-free'', VNum 7)])
   \<and> normalizeEmptyToObject sampleOps
        (normalizeEmptyToObject sampleOps
           [(''c-link'', VStr ''''), (''c-num'', VStr ''abc''), (''c-bool'', VStr ''TRUE''),
            (''c-img'', VNull), (''c-free'', VNum 7)]
           [(''c-link'', ''link''), (''c-num'', ''number''), (''c-bool'', ''boolean''),
            (''c-img'', ''image'')])
        [(''c-link'', ''link''), (''c-num'', ''number''), (''c-bool'', ''boolean''),
         (''c-img'', ''image'')]
     = [(''c-link'', webPage ''''), (''c-num'', VNum 0), (''c-bool'', VBool True),
        (''c-img'', VArr []), (''c-free'', VNum 7)]"
proof -
  have d: "distinct (map fst [(''c-link'', VStr ''''), (''c-num'', VStr ''abc''),
             (''c-bool'', VStr ''TRUE''), (''c-img'', VNull), (''c-free'', VNum (7::int))])"
    by simp
  have once: "normalizeEmptyToObject sampleOps
           [(''c-link'', VStr ''''), (''c-num'', VStr ''abc''), (''c-bool'', VStr ''TRUE''),
            (''c-img'', VNull), (''c-free'', VNum 7)]
           [(''c-link'', ''link''), (''c-num'', ''number''), (''c-bool'', ''boolean''),
            (''c-img'', ''image'')]
     = [(''c-link'', webPage ''''), (''c-num'', VNum 0), (''c-bool'', VBool True),
        (''c-img'', VArr []), (''c-free'', VNum 7)]"
    by (simp add: normalizeEmptyToObject_def normalizeCell_def obj_set_def sampleOps_def
          toLowerCase_def lowerChar_def)
  show ?thesis
    using d once normalize_idempotent [OF d, of sampleOps
        "[(''c-link'', ''link''), (''c-num'', ''number''), (''c-bool'', ''boolean''),
          (''c-img'', ''image'')]"]
    by simp
qed

text \<open>
  C7. For every cell whose declared column type is boolean or checkbox, the normalized
  mapping holds at that key: the boolean itself for a boolean; for a string, \<open>true\<close> or
  \<open>false\<close> when the case-folded string is \<open>true\<close> or \<open>false\<close>, and null for any other
  string; null for null and for undefined; null for every other value. In particular
  \<open>TRUE\<close> gives true, \<open>false\<close> gives false and \<open>yes\<close> gives null.
\<close>

theorem boolean_cell_normalized:
  assumes "distinct (map fst values)"
    and "(key, value) \<in> set values"
    and "map_of columnTypes key = Some ''boolean'' \<or> map_of columnTypes key = Some ''checkbox''"
  shows "map_of (normalizeEmptyToObject ops values columnTypes) key
         = Some (case value of
                   VBool b \<Rightarrow> VBool b
                 | VStr s \<Rightarrow>
                     (if toLowerCase s = ''true'' then VBool True
                      else if toLowerCase s = ''false'' then VBool False
                      else VNull)
                 | VNull \<Rightarrow> VNull
                 | VUndefined \<Rightarrow> VNull
                 | _ \<Rightarrow> VNull)
     \<and> (value = VStr ''TRUE'' \<longrightarrow>
          map_of (normalizeEmptyToObject ops values columnTypes) key = Some (VBool True))
     \<and> (value = VStr ''false'' \<longrightarrow>
          map_of (normalizeEmptyToObject ops values columnTypes) key = Some (VBool False))
     \<and> (value = VStr ''yes'' \<longrightarrow>
          map_of (normalizeEmptyToObject ops values columnTypes) key = Some VNull)"
proof -
  let ?f = "\<lambda>(k, v). (k, cellResult ops columnTypes k v)"
  have d: "distinct (map fst (map ?f values))"
    using assms(1) by (simp add: comp_def case_prod_beta)
  have "(key, cellResult ops columnTypes key value) \<in> set (map ?f values)"
    using assms(2) by force
  then have at_key: "map_of (normalizeEmptyToObject ops values columnTypes) key
                     = Some (cellResult ops columnTypes key value)"
    using d by (simp add: normalizeEmptyToObject_map [OF assms(1)])
  have cell: "cellResult ops columnTypes key value
              = (case value of
                   VBool b \<Rightarrow> VBool b
                 | VStr s \<Rightarrow>
                     (if toLowerCase s = ''true'' then VBool True
                      else if toLowerCase s = ''false'' then VBool False
                      else VNull)
                 | VNull \<Rightarrow> VNull
                 | VUndefined \<Rightarrow> VNull
                 | _ \<Rightarrow> VNull)"
    using assms(3) by (cases "value") (auto simp: cellResult_def normalizeCell_def)
  have folds: "toLowerCase ''TRUE'' = ''true''" "toLowerCase ''false'' = ''false''"
    "toLowerCase ''yes'' = ''yes''"
    by (simp_all add: toLowerCase_def lowerChar_def)
  show ?thesis
    using at_key cell folds by simp
qed

theorem boolean_cell_normalized_witness:
  "distinct (map fst [(''c-a'', VStr ''TRUE''), (''c-b'', VStr ''yes'')])
   \<and> (''c-a'', VStr ''TRUE'') \<in> set [(''c-a'', VStr ''TRUE''), (''c-b'', VStr ''yes'')]
   \<and> map_of [(''c-a'', ''boolean''), (''c-b'', ''checkbox'')] ''c-a'' = Some ''boolean''
   \<and> map_of (normalizeEmptyToObject sampleOps
               [(''c-a'', VStr ''TRUE''), (''c-b'', VStr ''yes'')]
               [(''c-a'', ''boolean''), (''c-b'', ''checkbox'')]) ''c-a''
     = Some (VBool True)"
proof -
  have d: "distinct (map fst [(''c-a'', VStr ''TRUE''), (''c-b'', VStr ''yes'' :: int RawValue)])"
    by simp
  have m: "(''c-a'', VStr ''TRUE'')
           \<in> set [(''c-a'', VStr ''TRUE''), (''c-b'', VStr ''yes'' :: int RawValue)]"
    by simp
  have t: "map_of [(''c-a'', ''boolean''), (''c-b'', ''checkbox'')] ''c-a'' = Some ''boolean''
           \<or> map_of [(''c-a'', ''boolean''), (''c-b'', ''checkbox'')] ''c-a'' = Some ''checkbox''"
    by simp
  show ?thesis
    using d m boolean_cell_normalized [OF d m t, of sampleOps]
    by (simp add: toLowerCase_def lowerChar_def)
qed

section \<open>Building an object from the entries of another\<close>

lemma obj_set_new: "key \<notin> fst ` set obj \<Longrightarrow> obj_set key w obj = obj @ [(key, w)]"
  by (induction obj) (auto simp: obj_set_def)

lemma fold_build_object:
  assumes "distinct (map fst ys)" and "fst ` set pre \<inter> fst ` set ys = {}"
  shows "fold (\<lambda>(k, v) result. obj_set k (f v) result) ys pre
         = pre @ map (\<lambda>(k, v). (k, f v)) ys"
  using assms
proof (induction ys arbitrary: pre)
  case Nil
  then show ?case by simp
next
  case (Cons y ys)
  obtain k v where y: "y = (k, v)" by (cases y)
  from Cons.prems y have "k \<notin> fst ` set pre" by auto
  then have step: "obj_set k (f v) pre = pre @ [(k, f v)]"
    by (rule obj_set_new)
  from Cons.prems y have d: "distinct (map fst ys)"
    and disj: "fst ` set (pre @ [(k, f v)]) \<inter> fst ` set ys = {}"
    by auto
  show ?case
    using Cons.IH [OF d disj] by (simp add: y step)
qed

section \<open>The wrapper pattern\<close>

lemma dotStar_sound: "dotStar n rest = Some inner \<Longrightarrow> rest = inner @ fence"
proof (induction n)
  case 0
  then show ?case by (simp split: if_splits)
next
  case (Suc n)
  show ?case
  proof (cases "drop (Suc n) rest = fence")
    case True
    with Suc.prems have "inner = take (Suc n) rest" by simp
    with True show ?thesis
      by (metis append_take_drop_id)
  next
    case False
    with Suc show ?thesis by simp
  qed
qed

lemma dotStar_complete: "length inner \<le> n \<Longrightarrow> dotStar n (inner @ fence) = Some inner"
proof (induction n)
  case 0
  then show ?case by simp
next
  case (Suc n)
  show ?case
  proof (cases "length inner = Suc n")
    case True
    then show ?thesis by simp
  next
    case False
    with Suc.prems have le: "length inner \<le> n" by simp
    have "drop (Suc n) (inner @ fence) \<noteq> fence"
    proof
      assume "drop (Suc n) (inner @ fence) = fence"
      then have "length (drop (Suc n) (inner @ fence)) = length fence"
        by (rule arg_cong)
      with le show False by (simp add: fence_def)
    qed
    then show ?thesis using Suc.IH [OF le] by simp
  qed
qed

lemma cleanString_wrapped: "cleanString (fence @ inner @ fence) = inner"
proof -
  have "take 3 (fence @ inner @ fence) = fence" "drop 3 (fence @ inner @ fence) = inner @ fence"
    by (simp_all add: fence_def)
  moreover have "dotStar (length (fence @ inner @ fence) - 3) (inner @ fence) = Some inner"
    by (rule dotStar_complete) (simp add: fence_def)
  ultimately show ?thesis
    by (simp add: cleanString_def)
qed

lemma cleanString_other:
  assumes "\<forall>inner. s \<noteq> fence @ inner @ fence"
  shows "cleanString s = s"
proof (cases "take 3 s = fence")
  case False
  then show ?thesis by (simp add: cleanString_def)
next
  case True
  then have s: "s = fence @ drop 3 s"
    by (metis append_take_drop_id)
  have "dotStar (length s - 3) (drop 3 s) = None"
  proof (rule ccontr)
    assume "dotStar (length s - 3) (drop 3 s) \<noteq> None"
    then obtain inner where "dotStar (length s - 3) (drop 3 s) = Some inner" by auto
    then have "drop 3 s = inner @ fence" by (rule dotStar_sound)
    with s have "s = fence @ inner @ fence" by simp
    with assms show False by blast
  qed
  then show ?thesis by (simp add: cleanString_def)
qed

section \<open>Claims about the sanitizer and the accessors\<close>

text \<open>
  C8. The sanitizer returns the inner content of a string that is a leading triple
  backtick, any content (line breaks included) and a trailing triple backtick, and returns
  every other string unchanged; numbers, booleans and null are left as they are; a list
  is sanitized item by item and a mapping (an object, with distinct keys) value by value,
  at the top level (\<open>cleanValues\<close>) and at every nested level. The wrapped string
  \<open>```hello```\<close> sanitizes to \<open>hello\<close>, the single-backtick string \<open>`hello`\<close> is
  unchanged.
\<close>

theorem sanitizer_unwraps:
  "cleanValue (VStr (fence @ inner @ fence)) = VStr inner
   \<and> ((\<forall>x. s \<noteq> fence @ x @ fence) \<longrightarrow> cleanValue (VStr s) = VStr s)
   \<and> cleanValue (VNum n) = VNum n
   \<and> cleanValue (VBool b) = VBool b
   \<and> cleanValue VNull = VNull
   \<and> cleanValue (VArr items) = VArr (map cleanValue items)
   \<and> (distinct (map fst kvs) \<longrightarrow>
        cleanValue (VObj kvs) = VObj (map (\<lambda>(k, v). (k, cleanValue v)) kvs))
   \<and> (distinct (map fst kvs) \<longrightarrow> cleanValues kvs = map (\<lambda>(k, v). (k, cleanValue v)) kvs)
   \<and> cleanValue (VStr ''```hello```'') = VStr ''hello''
   \<and> cleanValue (VStr ''`hello`'') = VStr ''`hello`''"
proof -
  have build: "distinct (map fst kvs) \<Longrightarrow>
      fold (\<lambda>(k, v) result. obj_set k (cleanValue v) result) kvs []
      = map (\<lambda>(k, v). (k, cleanValue v)) kvs"
    using fold_build_object [where pre = "[]" and ys = kvs and f = cleanValue] by simp
  have hello: "cleanString ''```hello```'' = ''hello''"
    using cleanString_wrapped [of "''hello''"] by (simp add: fence_def)
  have single: "cleanString ''`hello`'' = ''`hello`''"
    by (simp add: cleanString_def fence_def)
  show ?thesis
    using build hello single
    by (simp add: cleanString_wrapped cleanString_other cleanValues_def)
qed

theorem sanitizer_unwraps_witness:
  "(\<forall>x. ''`hello`'' \<noteq> fence @ x @ fence)
   \<and> distinct (map fst [(''c-a'', VStr ''```a
b```''), (''c-b'', VArr [VStr ''``````'', VNum 3])])
   \<and> cleanValue (VStr ''`hello`'') = VStr ''`hello`''
   \<and> cleanValues [(''c-a'', VStr ''```a
b```''), (''c-b'', VArr [VStr ''``````'', VNum (3::int)])]
     = [(''c-a'', VStr ''a
b''), (''c-b'', VArr [VStr '''', VNum 3])]"
proof -
  have h: "\<forall>x. ''`hello`'' \<noteq> fence @ x @ fence"
    by (simp add: fence_def)
  have d: "distinct (map fst [(''c-a'', VStr ''```a
b```''), (''c-b'', VArr [VStr ''``````'', VNum (3::int)])])"
    by simp
  have w1: "cleanString ''```a
b```'' = ''a
b''"
    using cleanString_wrapped [of "''a
b''"] by (simp add: fence_def)
  have w2: "cleanString ''``````'' = ''''"
    using cleanString_wrapped [of "''''"] by (simp add: fence_def)
  show ?thesis
    using h d w1 w2
      sanitizer_unwraps [of "''hello''" "''`hello`''" "3::int" True "[]"
        "[(''c-a'', VStr ''```a
b```''), (''c-b'', VArr [VStr ''``````'', VNum (3::int)])]"]
    by simp
qed

text \<open>
  C10. \<open>getImageUrl\<close> returns null for null, undefined, the empty string, the empty list
  and every value that is neither a non-empty list nor tagged as an ImageObject; for a
  non-empty list it returns what it returns for the first element, whatever the later
  elements are; for an ImageObject-tagged object it returns the object's \<open>url\<close> property.
\<close>

theorem getImageUrl_cases:
  "getImageUrl (VNull :: 'n RawValue) = VNull
   \<and> getImageUrl (VUndefined :: 'n RawValue) = VNull
   \<and> getImageUrl (VStr '''' :: 'n RawValue) = VNull
   \<and> getImageUrl (VArr [] :: 'n RawValue) = VNull
   \<and> getImageUrl (VArr (first # others)) = getImageUrl (first :: 'n RawValue)
   \<and> (isRawImage (v :: 'n RawValue) \<longrightarrow>
        (\<exists>kvs. v = VObj kvs \<and> getImageUrl v = obj_get kvs ''url''))
   \<and> (\<not> isRawImage v \<and> (\<forall>x xs. v \<noteq> VArr (x # xs)) \<longrightarrow> getImageUrl v = VNull)"
proof -
  have img: "isRawImage v \<longrightarrow> (\<exists>kvs. v = VObj kvs \<and> getImageUrl v = obj_get kvs ''url'')"
    by (cases v) (simp_all add: isRawImage_def)
  have other: "\<not> isRawImage v \<and> (\<forall>x xs. v \<noteq> VArr (x # xs)) \<longrightarrow> getImageUrl v = VNull"
  proof (cases v)
    case (VArr items)
    then show ?thesis by (cases items) (simp_all add: isRawImage_def)
  qed simp_all
  show ?thesis
    using img other by (simp add: isRawImage_def)
qed

theorem getImageUrl_cases_witness:
  "isRawImage (VObj [(''@type'', VStr ''ImageObject''), (''url'', VStr ''https://x/i.png'')]
              :: int RawValue)
   \<and> \<not> isRawImage (VNum (5::int)) \<and> (\<forall>x xs. VNum (5::int) \<noteq> VArr (x # xs))
   \<and> getImageUrl (VArr [VObj [(''@type'', VStr ''ImageObject''),
                               (''url'', VStr ''https://x/i.png'')], VNum (5::int)])
     = VStr ''https://x/i.png''
   \<and> getImageUrl (VNum (5::int)) = VNull"
proof -
  have i: "isRawImage (VObj [(''@type'', VStr ''ImageObject''),
                             (''url'', VStr ''https://x/i.png'')] :: int RawValue)"
    by (simp add: isRawImage_def)
  have n: "\<not> isRawImage (VNum (5::int)) \<and> (\<forall>x xs. VNum (5::int) \<noteq> VArr (x # xs))"
    by (simp add: isRawImage_def)
  show ?thesis
    using i n
      getImageUrl_cases [of "VObj [(''@type'', VStr ''ImageObject''),
                                   (''url'', VStr ''https://x/i.png'')] :: int RawValue"
        "[VNum 5]" "VNum 5"]
      getImageUrl_cases [of "VNum 5 :: int RawValue" "[]"
        "VObj [(''@type'', VStr ''ImageObject''), (''url'', VStr ''https://x/i.png'')]"]
    by (simp add: obj_get_def)
qed

section \<open>Claims about the construction of the loader\<close>

lemma codaLoader_fails_iff:
  "(\<exists>e. codaLoader env opts = Inl e)
   \<longleftrightarrow> \<not> truthy (resolvedToken env opts) \<or> \<not> truthy (resolvedDocId env opts)
       \<or> \<not> truthy (resolvedTable env opts)"
  by (simp add: codaLoader_def)

text \<open>
  C9. When the token, the document id or the table id/name is absent, that is neither
  passed as an option nor set in either of its two environment variables, \<open>codaLoader\<close>
  throws a configuration error and returns no loader object; since requests are made only
  by the \<open>load\<close> operation of a returned loader, none is issued. With token and table
  present and the document id absent, the error is the missing-doc-id error.
\<close>

theorem codaLoader_missing_configuration:
  "((token opts = None \<and> CODA_API_TOKEN env = None \<and> PUBLIC_CODA_API_TOKEN env = None)
    \<or> (docId opts = None \<and> CODA_DOC_ID env = None \<and> PUBLIC_CODA_DOC_ID env = None)
    \<or> (tableIdOrName opts = None \<and> CODA_TABLE_ID env = None \<and> PUBLIC_CODA_TABLE_ID env = None)
    \<longrightarrow> (\<exists>msg. codaLoader env opts = Inl (AstroError msg))
        \<and> (\<forall>loader. codaLoader env opts \<noteq> Inr loader))
   \<and> (truthy (resolvedToken env opts) \<and> truthy (resolvedTable env opts)
      \<and> docId opts = None \<and> CODA_DOC_ID env = None \<and> PUBLIC_CODA_DOC_ID env = None
    \<longrightarrow> codaLoader env opts = Inl (AstroError missingDocId))"
  by (auto simp: codaLoader_def resolvedToken_def resolvedDocId_def resolvedTable_def
        js_or_def truthy_def)

theorem codaLoader_missing_configuration_witness:
  "docId \<lparr>token = Some ''secret'', docId = None, tableIdOrName = Some ''grid-1'',
          query = None, sortBy = None, limit = (None :: int option), cleanStrings = None,
          maxLookupDepth = None\<rparr> = None
   \<and> CODA_DOC_ID \<lparr>CODA_API_TOKEN = None, PUBLIC_CODA_API_TOKEN = None, CODA_DOC_ID = None,
                  PUBLIC_CODA_DOC_ID = None, CODA_TABLE_ID = None,
                  PUBLIC_CODA_TABLE_ID = None\<rparr> = None
   \<and> PUBLIC_CODA_DOC_ID \<lparr>CODA_API_TOKEN = None, PUBLIC_CODA_API_TOKEN = None,
                  CODA_DOC_ID = None, PUBLIC_CODA_DOC_ID = None, CODA_TABLE_ID = None,
                  PUBLIC_CODA_TABLE_ID = None\<rparr> = None
   \<and> truthy (resolvedToken
        \<lparr>CODA_API_TOKEN = None, PUBLIC_CODA_API_TOKEN = None, CODA_DOC_ID = None,
         PUBLIC_CODA_DOC_ID = None, CODA_TABLE_ID = None, PUBLIC_CODA_TABLE_ID = None\<rparr>
        \<lparr>token = Some ''secret'', docId = None, tableIdOrName = Some ''grid-1'',
         query = None, sortBy = None, limit = (None :: int option), cleanStrings = None,
         maxLookupDepth = None\<rparr>)
   \<and> truthy (resolvedTable
        \<lparr>CODA_API_TOKEN = None, PUBLIC_CODA_API_TOKEN = None, CODA_DOC_ID = None,
         PUBLIC_CODA_DOC_ID = None, CODA_TABLE_ID = None, PUBLIC_CODA_TABLE_ID = None\<rparr>
        \<lparr>token = Some ''secret'', docId = None, tableIdOrName = Some ''grid-1'',
         query = None, sortBy = None, limit = (None :: int option), cleanStrings = None,
         maxLookupDepth = None\<rparr>)
   \<and> codaLoader
        \<lparr>CODA_API_TOKEN = None, PUBLIC_CODA_API_TOKEN = None, CODA_DOC_ID = None,
         PUBLIC_CODA_DOC_ID = None, CODA_TABLE_ID = None, PUBLIC_CODA_TABLE_ID = None\<rparr>
        \<lparr>token = Some ''secret'', docId = None, tableIdOrName = Some ''grid-1'',
         query = None, sortBy = None, limit = (None :: int option), cleanStrings = None,
         maxLookupDepth = None\<rparr>
     = Inl (AstroError missingDocId)"
  using codaLoader_missing_configuration
    [of "\<lparr>token = Some ''secret'', docId = None, tableIdOrName = Some ''grid-1'',
          query = None, sortBy = None, limit = (None :: int option), cleanStrings = None,
          maxLookupDepth = None\<rparr>"
        "\<lparr>CODA_API_TOKEN = None, PUBLIC_CODA_API_TOKEN = None, CODA_DOC_ID = None,
          PUBLIC_CODA_DOC_ID = None, CODA_TABLE_ID = None, PUBLIC_CODA_TABLE_ID = None\<rparr>"]
  by (simp add: resolvedToken_def resolvedTable_def truthy_def)

section \<open>Induction over the expansion\<close>

text \<open>The equations of the two functions of the source are used one unfolding at a time.\<close>

declare expandSingleReference.simps [simp del] expandRowLookups.simps [simp del]

text \<open>A relation between sessions that is reflexive and transitive and holds across the
  resolution of a reference, the marking of a reference and a line of log holds across
  every expansion that returns.\<close>

lemma expansion_relates:
  fixes R :: "'n env \<Rightarrow> 'n session \<Rightarrow> 'n session \<Rightarrow> bool"
  assumes R_refl: "\<And>e st. R e st st"
    and R_trans: "\<And>e a b c. R e a b \<Longrightarrow> R e b c \<Longrightarrow> R e a c"
    and resolve: "\<And>e reference st r st1.
                    resolveReference e reference st = Some (r, st1) \<Longrightarrow> R e st st1"
    and mark: "\<And>e st key. R e st (st\<lparr>processedRefs := insert key (processedRefs st)\<rparr>)"
    and logging: "\<And>e st rowId depth. R e st (logs (Debug_ExpandedRef rowId depth) st)"
  shows "expandSingleReference e fuel reference st d m = Some (r, st') \<Longrightarrow> R e st st'"
    and "expandRowLookups e fuel row st d m = Some (row', st') \<Longrightarrow> R e st st'"
    and "expandEntries e fuel entries ev st d m = Some (ev', st') \<Longrightarrow> R e st st'"
    and "expandItems e fuel items acc h st d m = Some (res, st') \<Longrightarrow> R e st st'"
proof (induction e fuel reference st d m and e fuel row st d m and e fuel entries ev st d m
         and e fuel items acc h st d m
       arbitrary: r st' and row' st' and ev' st' and res st'
       rule: expandSingleReference_expandRowLookups_expandEntries_expandItems.induct)
  case (1 e fuel reference st d m)
  show ?case
  proof (cases "refKey (numOps e) reference \<in> processedRefs st")
    case True
    with "1.prems" show ?thesis
      by (simp add: expandSingleReference.simps R_refl)
  next
    case False
    with "1.prems" obtain rr st1 where res: "resolveReference e reference st = Some (rr, st1)"
      by (auto simp: expandSingleReference.simps split: option.splits)
    have r1: "R e st st1" using res by (rule resolve)
    show ?thesis
    proof (cases rr)
      case None
      with "1.prems" False res r1 show ?thesis
        by (simp add: expandSingleReference.simps)
    next
      case (Some referencedRow)
      with "1.prems" False res obtain fuel1 deeper st2 where
        f: "fuel = Suc fuel1"
        and deep: "expandRowLookups e fuel1 referencedRow
                     (st1\<lparr>processedRefs := insert (refKey (numOps e) reference) (processedRefs st1)\<rparr>)
                     (d + 1) m = Some (deeper, st2)"
        and st': "st' = logs (Debug_ExpandedRef (ref_rowId (numOps e) reference) d) st2"
        by (auto simp: expandSingleReference.simps split: option.splits nat.splits)
      have "R e (st1\<lparr>processedRefs := insert (refKey (numOps e) reference) (processedRefs st1)\<rparr>) st2"
        using "1.IH" [OF False res refl Some f deep] by simp
      with r1 mark [of e st1 "refKey (numOps e) reference"] have "R e st st2"
        by (blast intro: R_trans)
      then show ?thesis
        unfolding st' using logging [of e st2] by (blast intro: R_trans)
    qed
  qed
next
  case (2 e fuel row st d m)
  show ?case
  proof (cases "m \<le> 0 \<or> m \<le> d")
    case True
    with "2.prems" show ?thesis
      by (auto simp: expandRowLookups.simps R_refl)
  next
    case False
    with "2.prems" obtain ev1 where
      "expandEntries e fuel (row_values row) (row_values row) st d m = Some (ev1, st')"
      by (auto simp: expandRowLookups.simps split: option.splits)
    with "2.IH" [OF False] show ?thesis by simp
  qed
next
  case (3 e fuel ev st d m)
  then show ?case by (simp add: R_refl)
next
  case (4 e fuel key "value" entries ev st d m)
  show ?case
  proof (cases "isRawRowReference value")
    case True
    with "4.prems" obtain x st1 where
      single: "expandSingleReference e fuel value st d m = Some (x, st1)"
      by (auto split: option.splits)
    have r1: "R e st st1" using "4.IH"(1) [OF True single] .
    show ?thesis
    proof (cases x)
      case None
      with "4.prems" True single
      have "expandEntries e fuel entries ev st1 d m = Some (ev', st')" by simp
      from r1 "4.IH"(2) [OF True single refl None this] show ?thesis
        by (rule R_trans)
    next
      case (Some expandedRef)
      with "4.prems" True single
      have "expandEntries e fuel entries (obj_set key expandedRef ev) st1 d m = Some (ev', st')"
        by simp
      from r1 "4.IH"(3) [OF True single refl Some this] show ?thesis
        by (rule R_trans)
    qed
  next
    case notRef: False
    show ?thesis
    proof (cases "isArray value")
      case True
      with "4.prems" notRef obtain xs hx st1 where
        its: "expandItems e fuel (arrayItems value) [] False st d m = Some ((xs, hx), st1)"
        by (auto split: option.splits)
      have r1: "R e st st1" using "4.IH"(4) [OF notRef True its] .
      from "4.prems" notRef True its
      have "expandEntries e fuel entries (if hx then obj_set key (VArr xs) ev else ev) st1 d m
            = Some (ev', st')"
        by simp
      from r1 "4.IH"(5) [OF notRef True its refl refl this] show ?thesis
        by (rule R_trans)
    next
      case False
      with "4.prems" notRef
      have "expandEntries e fuel entries ev st d m = Some (ev', st')" by simp
      from "4.IH"(6) [OF notRef False this] show ?thesis .
    qed
  qed
next
  case (5 e fuel acc h st d m)
  then show ?case by (simp add: R_refl)
next
  case (6 e fuel item items acc h st d m)
  show ?case
  proof (cases "isRawRowReference item")
    case False
    with "6.prems" have "expandItems e fuel items (acc @ [item]) h st d m = Some (res, st')"
      by simp
    from "6.IH"(1) [OF False this] show ?thesis .
  next
    case True
    then have nn: "\<not> \<not> isRawRowReference item" by simp
    from "6.prems" True obtain x st1 where
      single: "expandSingleReference e fuel item st d m = Some (x, st1)"
      by (auto split: option.splits)
    have r1: "R e st st1" using "6.IH"(2) [OF nn single] .
    show ?thesis
    proof (cases x)
      case None
      with "6.prems" True single
      have "expandItems e fuel items (acc @ [item]) h st1 d m = Some (res, st')" by simp
      from r1 "6.IH"(3) [OF nn single refl None this] show ?thesis
        by (rule R_trans)
    next
      case (Some expandedRef)
      with "6.prems" True single
      have "expandItems e fuel items (acc @ [expandedRef]) True st1 d m = Some (res, st')"
        by simp
      from r1 "6.IH"(4) [OF nn single refl Some this] show ?thesis
        by (rule R_trans)
    qed
  qed
qed

section \<open>The entries of a row during its expansion\<close>

lemma map_of_obj_set: "map_of (obj_set k v m) k' = (if k' = k then Some v else map_of m k')"
  by (simp add: obj_set_def update_conv')



section \<open>The log of a table fetch\<close>

text \<open>A table fetch appends to the log it is given; what it returns does not depend on
  that log.\<close>

lemma fetchPages_log:
  "fetchPages fuel request tableId pageToken pageCount rowsMap lg
   = map_option (\<lambda>(r, new). (r, lg @ new))
       (fetchPages fuel request tableId pageToken pageCount rowsMap [])"
proof (induction fuel arbitrary: pageToken pageCount rowsMap lg)
  case 0
  show ?case by simp
next
  case (Suc fuel)
  show ?case
  proof (cases "request (if truthy pageToken then pageToken else None)")
    case (Page items nextPageToken)
    let ?rows = "fold (\<lambda>row m. obj_set (row_id row) row m) items rowsMap"
    let ?two = "[Debug_FetchingPage tableId (pageCount + 1),
                 Debug_FetchedRows (length items) tableId (length ?rows)]"
    show ?thesis
    proof (cases "truthy nextPageToken")
      case True
      have "fetchPages fuel request tableId nextPageToken (pageCount + 1) ?rows (lg @ ?two)
            = map_option (\<lambda>(r, new). (r, (lg @ ?two) @ new))
                (fetchPages fuel request tableId nextPageToken (pageCount + 1) ?rows [])"
        by (rule Suc.IH)
      moreover
      have "fetchPages fuel request tableId nextPageToken (pageCount + 1) ?rows ?two
            = map_option (\<lambda>(r, new). (r, ?two @ new))
                (fetchPages fuel request tableId nextPageToken (pageCount + 1) ?rows [])"
        by (rule Suc.IH)
      ultimately show ?thesis
        using Page True
        by (cases "fetchPages fuel request tableId nextPageToken (pageCount + 1) ?rows []")
           (auto simp: Let_def)
    next
      case False
      with Page show ?thesis by (simp add: Let_def)
    qed
  qed (simp_all add: Let_def)
qed

lemma fetchTableData_log:
  "fetchTableData fuel request tableId lg
   = map_option (\<lambda>(r, new). (r, lg @ new)) (fetchTableData fuel request tableId [])"
proof -
  have "fetchPages fuel request tableId None 0 [] lg
        = map_option (\<lambda>(r, new). (r, lg @ new)) (fetchPages fuel request tableId None 0 [] [])"
    by (rule fetchPages_log)
  then show ?thesis
    by (auto simp: fetchTableData_def split: option.splits sum.splits)
qed

lemma fetchTableData_settles:
  "fetchTableData fuel request tableId [] \<noteq> None \<Longrightarrow> fetchTableData fuel request tableId lg \<noteq> None"
  by (subst fetchTableData_log) simp

section \<open>Claims about the depth bound\<close>

text \<open>
  C4. When the maximum depth is zero or negative, \<open>expandLookups\<close> returns the list of
  rows it was given and the logger receives nothing, so no page of any table is
  requested; and \<open>expandRowLookups\<close> returns its row and leaves the session as it is
  (caches, request counter and log) whenever the maximum depth is at most zero or the
  current depth has reached it.
\<close>

theorem no_expansion_without_depth:
  "(maxDepth \<le> 0 \<longrightarrow> expandLookups e fuel rows maxDepth = Some (rows, []))
   \<and> (maxDepth \<le> 0 \<or> currentDepth \<ge> maxDepth \<longrightarrow>
        expandRowLookups e fuel row st currentDepth maxDepth = Some (row, st))"
  by (auto simp: expandLookups_def expandRowLookups.simps)

theorem no_expansion_without_depth_witness:
  "(0::int) \<le> 0 \<and> ((0::int) \<le> 0 \<or> (2::int) \<ge> 0)
   \<and> expandLookups cyclicEnv 0 [mkRow ''A'' [(''c-next'', mkRef ''T'' ''B'')]] 0
       = Some ([mkRow ''A'' [(''c-next'', mkRef ''T'' ''B'')]], [])
   \<and> expandRowLookups cyclicEnv 0 (mkRow ''A'' [(''c-next'', mkRef ''T'' ''B'')])
         (newSession []) 2 0
       = Some (mkRow ''A'' [(''c-next'', mkRef ''T'' ''B'')], newSession [])"
  using no_expansion_without_depth
          [of 0 cyclicEnv 0 "[mkRow ''A'' [(''c-next'', mkRef ''T'' ''B'')]]" 2
              "mkRow ''A'' [(''c-next'', mkRef ''T'' ''B'')]" "newSession []"]
  by simp

section \<open>Termination of the expansion\<close>

lemma resolveReference_settles:
  assumes "\<forall>k t. fetchTableData (pageFuel e) (api e k t) t [] \<noteq> None"
  shows "\<exists>r st1. resolveReference e reference st = Some (r, st1)"
proof -
  have ne: "fetchTableData (pageFuel e) (api e k t) t lg \<noteq> None" for k t lg
    using assms fetchTableData_settles by blast
  show ?thesis
    by (auto simp: resolveReference_def Let_def resolved_def ne split: option.splits sum.splits)
qed

lemma expansion_returns:
  fixes e :: "'n env"
  shows "(\<forall>k t. fetchTableData (pageFuel e) (api e k t) t [] \<noteq> None) \<Longrightarrow> d < m \<Longrightarrow>
           nat (m - d) \<le> fuel \<Longrightarrow>
           \<exists>r st'. expandSingleReference e fuel reference st d m = Some (r, st')"
    and "(\<forall>k t. fetchTableData (pageFuel e) (api e k t) t [] \<noteq> None) \<Longrightarrow>
           nat (m - d) \<le> fuel \<Longrightarrow>
           \<exists>row' st'. expandRowLookups e fuel row st d m = Some (row', st')"
    and "(\<forall>k t. fetchTableData (pageFuel e) (api e k t) t [] \<noteq> None) \<Longrightarrow> d < m \<Longrightarrow>
           nat (m - d) \<le> fuel \<Longrightarrow>
           \<exists>ev' st'. expandEntries e fuel entries ev st d m = Some (ev', st')"
    and "(\<forall>k t. fetchTableData (pageFuel e) (api e k t) t [] \<noteq> None) \<Longrightarrow> d < m \<Longrightarrow>
           nat (m - d) \<le> fuel \<Longrightarrow>
           \<exists>res st'. expandItems e fuel items acc h st d m = Some (res, st')"
proof (induction e fuel reference st d m and e fuel row st d m and e fuel entries ev st d m
         and e fuel items acc h st d m
       rule: expandSingleReference_expandRowLookups_expandEntries_expandItems.induct)
  case (1 e fuel reference st d m)
  note settles = "1.prems"(1)
  show ?case
  proof (cases "refKey (numOps e) reference \<in> processedRefs st")
    case True
    then show ?thesis by (simp add: expandSingleReference.simps)
  next
    case False
    from resolveReference_settles [OF settles] obtain rr st1 where
      res: "resolveReference e reference st = Some (rr, st1)" by blast
    show ?thesis
    proof (cases rr)
      case None
      with False res show ?thesis by (simp add: expandSingleReference.simps)
    next
      case (Some referencedRow)
      from "1.prems"(2,3) obtain fuel1 where f: "fuel = Suc fuel1"
        by (cases fuel) auto
      with "1.prems"(2,3) have "nat (m - (d + 1)) \<le> fuel1" by simp
      from "1.IH" [OF False res refl Some f settles this]
      obtain deeper st2 where
        "expandRowLookups e fuel1 referencedRow
           (st1\<lparr>processedRefs := insert (refKey (numOps e) reference) (processedRefs st1)\<rparr>)
           (d + 1) m = Some (deeper, st2)"
        by blast
      with False res Some f show ?thesis
        by (simp add: expandSingleReference.simps)
    qed
  qed
next
  case (2 e fuel row st d m)
  show ?case
  proof (cases "m \<le> 0 \<or> m \<le> d")
    case True
    then show ?thesis by (auto simp: expandRowLookups.simps)
  next
    case False
    then have "d < m" by simp
    from "2.IH" [OF False "2.prems"(1) this "2.prems"(2)] False show ?thesis
      by (auto simp: expandRowLookups.simps)
  qed
next
  case (3 e fuel ev st d m)
  show ?case by simp
next
  case (4 e fuel key "value" entries ev st d m)
  note pre = "4.prems"
  show ?case
  proof (cases "isRawRowReference value")
    case True
    from "4.IH"(1) [OF True pre] obtain x st1 where
      single: "expandSingleReference e fuel value st d m = Some (x, st1)" by blast
    show ?thesis
    proof (cases x)
      case None
      from "4.IH"(2) [OF True single refl None pre] True single None show ?thesis by simp
    next
      case (Some expandedRef)
      from "4.IH"(3) [OF True single refl Some pre] True single Some show ?thesis by simp
    qed
  next
    case notRef: False
    show ?thesis
    proof (cases "isArray value")
      case True
      from "4.IH"(4) [OF notRef True pre] obtain xs hx st1 where
        its: "expandItems e fuel (arrayItems value) [] False st d m = Some ((xs, hx), st1)"
        by auto
      from "4.IH"(5) [OF notRef True its refl refl pre] notRef True its show ?thesis by simp
    next
      case False
      from "4.IH"(6) [OF notRef False pre] notRef False show ?thesis by simp
    qed
  qed
next
  case (5 e fuel acc h st d m)
  show ?case by simp
next
  case (6 e fuel item items acc h st d m)
  note pre = "6.prems"
  show ?case
  proof (cases "isRawRowReference item")
    case False
    from "6.IH"(1) [OF False pre] False show ?thesis by simp
  next
    case True
    then have nn: "\<not> \<not> isRawRowReference item" by simp
    from "6.IH"(2) [OF nn pre] obtain x st1 where
      single: "expandSingleReference e fuel item st d m = Some (x, st1)" by blast
    show ?thesis
    proof (cases x)
      case None
      from "6.IH"(3) [OF nn single refl None pre] True single None show ?thesis by simp
    next
      case (Some expandedRef)
      from "6.IH"(4) [OF nn single refl Some pre] True single Some show ?thesis by simp
    qed
  qed
qed

lemma expandRows_returns:
  assumes "\<forall>k t. fetchTableData (pageFuel e) (api e k t) t [] \<noteq> None"
    and "nat maxDepth \<le> fuel"
  shows "\<exists>rows' st'. expandRows e fuel rows expandedRows st maxDepth = Some (rows', st')"
proof (induction rows arbitrary: expandedRows st)
  case Nil
  show ?case by simp
next
  case (Cons row rows)
  from assms have "nat (maxDepth - 0) \<le> fuel" by simp
  from expansion_returns(2) [OF assms(1) this]
  obtain row' st1 where
    "expandRowLookups e fuel row (st\<lparr>processedRefs := {}\<rparr>) 0 maxDepth = Some (row', st1)"
    by blast
  with Cons.IH [of "expandedRows @ [row']" st1] show ?case by simp
qed

text \<open>
  C1. Lookup expansion terminates for every row, every starting depth and every maximum
  depth, whatever the references are (cycles included): when every table fetch returns,
  \<open>expandRowLookups\<close> returns with \<open>expandSingleReference\<close> nested in itself no deeper
  than the distance from the current depth to the maximum depth, since each call from
  \<open>expandSingleReference\<close> passes the depth plus one and \<open>expandRowLookups\<close> returns its
  row once the depth has reached the maximum; so do \<open>expandSingleReference\<close> below the
  maximum depth and \<open>expandLookups\<close> on a whole batch.
\<close>

theorem expansion_terminates:
  assumes "\<forall>k t. fetchTableData (pageFuel e) (api e k t) t [] \<noteq> None"
  shows "(nat (maxDepth - currentDepth) \<le> fuel \<longrightarrow>
            (\<exists>row' st'. expandRowLookups e fuel row st currentDepth maxDepth = Some (row', st')))
     \<and> (currentDepth < maxDepth \<and> nat (maxDepth - currentDepth) \<le> fuel \<longrightarrow>
            (\<exists>r st'. expandSingleReference e fuel reference st currentDepth maxDepth
                       = Some (r, st')))
     \<and> (nat maxDepth \<le> fuel \<longrightarrow>
            (\<exists>rows' lg. expandLookups e fuel rows maxDepth = Some (rows', lg)))"
proof -
  have "\<exists>rows' lg. expandLookups e fuel rows maxDepth = Some (rows', lg)"
    if "nat maxDepth \<le> fuel"
    using expandRows_returns [OF assms that, of rows "[]"
            "newSession [Info_ExpandingLookups maxDepth (length rows)]"]
    by (auto simp: expandLookups_def)
  then show ?thesis
    using expansion_returns(1,2) [OF assms] by blast
qed

theorem expansion_terminates_witness:
  "(\<forall>k t. fetchTableData (pageFuel cyclicEnv) (api cyclicEnv k t) t [] \<noteq> None)
   \<and> nat (5 - 0) \<le> (5::nat) \<and> (0::int) < 5 \<and> nat 5 \<le> (5::nat)
   \<and> (\<exists>row' st'. expandRowLookups cyclicEnv 5 (mkRow ''A'' [(''c-next'', mkRef ''T'' ''B'')])
                      (newSession []) 0 5 = Some (row', st'))
   \<and> (\<exists>r st'. expandSingleReference cyclicEnv 5 (mkRef ''T'' ''B'') (newSession []) 0 5
                 = Some (r, st'))
   \<and> (\<exists>rows' lg. expandLookups cyclicEnv 5 [mkRow ''A'' [(''c-next'', mkRef ''T'' ''B'')]] 5
                    = Some (rows', lg))"
proof -
  have h: "\<forall>k t. fetchTableData (pageFuel cyclicEnv) (api cyclicEnv k t) t [] \<noteq> None"
    by (simp add: cyclicEnv_def cyclicApi_def fetchTableData_def truthy_def Let_def)
  show ?thesis
    using h expansion_terminates [OF h, where maxDepth = 5 and currentDepth = 0 and fuel = 5
        and row = "mkRow ''A'' [(''c-next'', mkRef ''T'' ''B'')]" and st = "newSession []"
        and reference = "mkRef ''T'' ''B''"
        and rows = "[mkRow ''A'' [(''c-next'', mkRef ''T'' ''B'')]]"]
    by simp
qed

text \<open>The cycle at work: \<open>A\<close> references \<open>B\<close> and \<open>B\<close> references \<open>A\<close>. Expanding the
  top-level row \<open>A\<close> to depth 5 expands the reference to \<open>B\<close>, inside it the reference
  back to \<open>A\<close> (the top-level row itself is not in the processed set), and stops at the
  second encounter of \<open>B\<close>, after one table fetch.\<close>

lemma cycle_expansion_example:
  "expandLookups cyclicEnv 5 [rowA] 5
   = Some ([mkRow ''A''
              [(''c-next'',
                expandedReference (mkRef ''T'' ''B'')
                  (mkRow ''B'' [(''c-next'', expandedReference (mkRef ''T'' ''A'') rowA)]))]],
           [Info_ExpandingLookups 5 1, Debug_FetchingPage ''T'' 1,
            Debug_FetchedRows 3 ''T'' 3, Info_LoadedTable ''T'' 3,
            Debug_FoundInTableCache ''T:A'', Debug_ExpandedRef ''A'' 1,
            Debug_ExpandedRef ''B'' 0, Info_ExpansionCompleted 1 1 3,
            Debug_SampleRow ''A''])"
  by code_simp

section \<open>The processed set\<close>





section \<open>What the returned row holds at a suppressed reference\<close>






section \<open>Claims about the processed set\<close>




text \<open>Two runs of a batch. The rows \<open>R1\<close> and \<open>R2\<close> both reference \<open>C\<close>, and the reference
  is expanded in both. With a maximum depth of 2, \<open>R2\<close> references \<open>B\<close> and then \<open>A\<close>: the
  expansion of \<open>B\<close> expands its reference to \<open>A\<close>, whose key is then in the set, and the
  reference of \<open>R2\<close> to \<open>A\<close> is left as it was, although \<open>R1\<close> had its reference to \<open>A\<close>
  expanded.\<close>

lemma same_target_from_two_rows_example:
  "expandLookups cyclicEnv 1
     [mkRow ''R1'' [(''c-1'', mkRef ''T'' ''C'')], mkRow ''R2'' [(''c-1'', mkRef ''T'' ''C'')]] 1
   = Some ([mkRow ''R1'' [(''c-1'', expandedReference (mkRef ''T'' ''C'') rowC)],
            mkRow ''R2'' [(''c-1'', expandedReference (mkRef ''T'' ''C'') rowC)]],
           [Info_ExpandingLookups 1 2, Debug_FetchingPage ''T'' 1,
            Debug_FetchedRows 3 ''T'' 3, Info_LoadedTable ''T'' 3,
            Debug_ExpandedRef ''C'' 0, Debug_FoundInTableCache ''T:C'',
            Debug_ExpandedRef ''C'' 0, Info_ExpansionCompleted 1 1 3,
            Debug_SampleRow ''R1''])"
  by code_simp

lemma target_met_earlier_in_row_example:
  "expandLookups cyclicEnv 2
     [mkRow ''R1'' [(''c-1'', mkRef ''T'' ''A'')],
      mkRow ''R2'' [(''c-0'', mkRef ''T'' ''B''), (''c-1'', mkRef ''T'' ''A'')]] 2
   = Some ([mkRow ''R1''
              [(''c-1'', expandedReference (mkRef ''T'' ''A'')
                           (mkRow ''A'' [(''c-next'', expandedReference (mkRef ''T'' ''B'') rowB)]))],
            mkRow ''R2''
              [(''c-0'', expandedReference (mkRef ''T'' ''B'')
                           (mkRow ''B'' [(''c-next'', expandedReference (mkRef ''T'' ''A'') rowA)])),
               (''c-1'', mkRef ''T'' ''A'')]],
           [Info_ExpandingLookups 2 2, Debug_FetchingPage ''T'' 1,
            Debug_FetchedRows 3 ''T'' 3, Info_LoadedTable ''T'' 3,
            Debug_FoundInTableCache ''T:B'', Debug_ExpandedRef ''B'' 1,
            Debug_ExpandedRef ''A'' 0, Debug_FoundInTableCache ''T:B'',
            Debug_FoundInTableCache ''T:A'', Debug_ExpandedRef ''A'' 1,
            Debug_ExpandedRef ''B'' 0, Info_ExpansionCompleted 1 1 3,
            Debug_SampleRow ''R1''])"
  by code_simp

section \<open>A table fetch that fails\<close>

lemma fetchTableData_first_page:
  "fetchTableData (Suc fuel) request tableId lg
   = (case request None of
        FetchRejected msg \<Rightarrow>
          Some (Inl (Rejected msg), lg @ [Debug_FetchingPage tableId 1])
      | FetchAborted \<Rightarrow>
          Some (Inl (RequestTimedOut tableId), lg @ [Debug_FetchingPage tableId 1])
      | HttpError status statusText \<Rightarrow>
          Some (Inl (FailedToFetch status statusText), lg @ [Debug_FetchingPage tableId 1])
      | BodyRejected msg \<Rightarrow>
          Some (Inl (Rejected msg), lg @ [Debug_FetchingPage tableId 1])
      | Page items nextPageToken \<Rightarrow> fetchTableData (Suc fuel) request tableId lg)"
  by (simp add: fetchTableData_def truthy_def split: http_result.splits)

lemma resolveReference_fetch_fails:
  assumes "map_of (tableCache st) (ref_tableId (numOps e) reference) = None"
    and "map_of (cache st) (refKey (numOps e) reference) = None"
    and "fetchTableData (pageFuel e)
           (api e (requestCount st + 1) (ref_tableId (numOps e) reference))
           (ref_tableId (numOps e) reference) (logged st) = Some (Inl err, lg)"
  shows "resolveReference e reference st
         = Some (None,
                 st\<lparr>requestCount := requestCount st + 1,
                    cache := obj_set (refKey (numOps e) reference) None (cache st),
                    logged := lg @ [Warn_FailedToFetchTable
                                      (ref_tableId (numOps e) reference) err]\<rparr>)"
  using assms by (simp add: resolveReference_def Let_def)

lemma expandRowLookups_id:
  "expandRowLookups e fuel row st d m = Some (row', st') \<Longrightarrow> row_id row' = row_id row"
  by (auto simp: expandRowLookups.simps split: if_splits option.splits)

lemma expandRows_ids:
  "expandRows e fuel rows expandedRows st m = Some (rows', st')
   \<Longrightarrow> map row_id rows' = map row_id expandedRows @ map row_id rows"
proof (induction rows arbitrary: expandedRows st)
  case Nil
  then show ?case by simp
next
  case (Cons row rows)
  from Cons.prems obtain row' st1 where
    one: "expandRowLookups e fuel row (st\<lparr>processedRefs := {}\<rparr>) 0 m = Some (row', st1)"
    and rest: "expandRows e fuel rows (expandedRows @ [row']) st1 m = Some (rows', st')"
    by (auto split: option.splits)
  from Cons.IH [OF rest] expandRowLookups_id [OF one] show ?case by simp
qed

lemma expandLookups_ids:
  assumes "expandLookups e fuel rows m = Some (rows', lg)"
  shows "map row_id rows' = map row_id rows"
proof (cases "m \<le> 0")
  case True
  with assms show ?thesis by (simp add: expandLookups_def)
next
  case False
  with assms obtain st' where
    "expandRows e fuel rows [] (newSession [Info_ExpandingLookups m (length rows)]) m
     = Some (rows', st')"
    by (auto simp: expandLookups_def split: option.splits)
  from expandRows_ids [OF this] show ?thesis by simp
qed

section \<open>A page request that fails after pages were served\<close>

text \<open>After the pages \<open>ps\<close> the table fetch is where it would be had it started with
  the token of the last of them, and what the next request comes back with decides it.\<close>

lemma tokenAfter_truthy:
  "served request pageToken ps \<Longrightarrow> pageToken = None \<or> truthy pageToken
   \<Longrightarrow> tokenAfter pageToken ps = None \<or> truthy (tokenAfter pageToken ps)"
proof (induction ps arbitrary: pageToken)
  case Nil
  then show ?case by simp
next
  case (Cons p ps)
  obtain items nextPageToken where p: "p = (items, nextPageToken)" by (cases p)
  from Cons.prems p have "served request nextPageToken ps" and "truthy nextPageToken"
    by simp_all
  with Cons.IH [of nextPageToken] p show ?case by simp
qed

lemma tokenAfter_sent:
  "served request None ps
   \<Longrightarrow> (if truthy (tokenAfter None ps) then tokenAfter None ps else None)
       = tokenAfter None ps"
  using tokenAfter_truthy [of request None ps] by auto

lemma fetchPages_served:
  "served request pageToken ps \<Longrightarrow> length ps \<le> fuel \<Longrightarrow>
   \<exists>rowsMap' new.
     fetchPages (Suc fuel) request tableId pageToken pageCount rowsMap lg
     = fetchPages (Suc (fuel - length ps)) request tableId (tokenAfter pageToken ps)
         (pageCount + length ps) rowsMap' (lg @ new)"
proof (induction ps arbitrary: fuel pageToken pageCount rowsMap lg)
  case Nil
  have "fetchPages (Suc fuel) request tableId pageToken pageCount rowsMap lg
        = fetchPages (Suc (fuel - length [])) request tableId (tokenAfter pageToken [])
            (pageCount + length []) rowsMap (lg @ [])"
    by simp
  then show ?case by blast
next
  case (Cons p ps)
  obtain items nextPageToken where p: "p = (items, nextPageToken)" by (cases p)
  from Cons.prems(2) obtain fuel1 where f: "fuel = Suc fuel1" and le: "length ps \<le> fuel1"
    by (cases fuel) auto
  from Cons.prems(1) p have
    page: "request (if truthy pageToken then pageToken else None) = Page items nextPageToken"
    and more: "truthy nextPageToken" and rest: "served request nextPageToken ps"
    by simp_all
  let ?rows = "fold (\<lambda>row m. obj_set (row_id row) row m) items rowsMap"
  let ?two = "[Debug_FetchingPage tableId (pageCount + 1),
               Debug_FetchedRows (length items) tableId (length ?rows)]"
  have step: "fetchPages (Suc fuel) request tableId pageToken pageCount rowsMap lg
              = fetchPages (Suc fuel1) request tableId nextPageToken (pageCount + 1) ?rows
                  (lg @ ?two)"
    unfolding f
    by (subst fetchPages.simps(2)) (simp add: Let_def page more del: fetchPages.simps)
  from Cons.IH [OF rest le, where pageCount = "pageCount + 1" and rowsMap = ?rows
                  and lg = "lg @ ?two"]
  obtain rowsMap' new where
    "fetchPages (Suc fuel1) request tableId nextPageToken (pageCount + 1) ?rows (lg @ ?two)
     = fetchPages (Suc (fuel1 - length ps)) request tableId (tokenAfter nextPageToken ps)
         (pageCount + 1 + length ps) rowsMap' ((lg @ ?two) @ new)"
    by blast
  with step p f have
    "fetchPages (Suc fuel) request tableId pageToken pageCount rowsMap lg
     = fetchPages (Suc (fuel - length (p # ps))) request tableId (tokenAfter pageToken (p # ps))
         (pageCount + length (p # ps)) rowsMap' (lg @ (?two @ new))"
    by (simp add: add.commute add.left_commute)
  then show ?case by blast
qed

lemma served_snoc:
  "served request pageToken (ps @ [(items, nextPageToken)])
   = (served request pageToken ps
      \<and> request (if truthy (tokenAfter pageToken ps) then tokenAfter pageToken ps else None)
          = Page items nextPageToken
      \<and> truthy nextPageToken)"
proof (induction ps arbitrary: pageToken)
  case Nil
  show ?case by simp
next
  case (Cons p ps)
  obtain items1 next1 where p: "p = (items1, next1)" by (cases p)
  show ?case unfolding p by (auto simp: Cons.IH)
qed

lemma fetchTableData_any_page:
  assumes srv: "served request None ps" and le: "length ps \<le> pages"
  shows "case request (tokenAfter None ps) of
           FetchRejected msg \<Rightarrow>
             \<exists>new. fetchTableData (Suc pages) request tableId lg
                    = Some (Inl (Rejected msg),
                            lg @ new @ [Debug_FetchingPage tableId (length ps + 1)])
         | FetchAborted \<Rightarrow>
             \<exists>new. fetchTableData (Suc pages) request tableId lg
                    = Some (Inl (RequestTimedOut tableId),
                            lg @ new @ [Debug_FetchingPage tableId (length ps + 1)])
         | HttpError status statusText \<Rightarrow>
             \<exists>new. fetchTableData (Suc pages) request tableId lg
                    = Some (Inl (FailedToFetch status statusText),
                            lg @ new @ [Debug_FetchingPage tableId (length ps + 1)])
         | BodyRejected msg \<Rightarrow>
             \<exists>new. fetchTableData (Suc pages) request tableId lg
                    = Some (Inl (Rejected msg),
                            lg @ new @ [Debug_FetchingPage tableId (length ps + 1)])
         | Page items nextPageToken \<Rightarrow>
             if truthy nextPageToken then served request None (ps @ [(items, nextPageToken)])
             else \<exists>rowsMap new. fetchTableData (Suc pages) request tableId lg
                                 = Some (Inr rowsMap, lg @ new)"
proof -
  from fetchPages_served [OF srv le, of tableId 0 "[]" lg] obtain rowsMap' new where
    run: "fetchPages (Suc pages) request tableId None 0 [] lg
          = fetchPages (Suc (pages - length ps)) request tableId (tokenAfter None ps)
              (length ps) rowsMap' (lg @ new)"
    by auto
  note sent = tokenAfter_sent [OF srv]
  show ?thesis
  proof (cases "request (tokenAfter None ps)")
    case (FetchRejected msg)
    with run sent have "fetchTableData (Suc pages) request tableId lg
          = Some (Inl (Rejected msg), lg @ new @ [Debug_FetchingPage tableId (length ps + 1)])"
      by (simp add: fetchTableData_def Let_def)
    with FetchRejected show ?thesis by auto
  next
    case FetchAborted
    with run sent have "fetchTableData (Suc pages) request tableId lg
          = Some (Inl (RequestTimedOut tableId),
                  lg @ new @ [Debug_FetchingPage tableId (length ps + 1)])"
      by (simp add: fetchTableData_def Let_def)
    with FetchAborted show ?thesis by auto
  next
    case (HttpError status statusText)
    with run sent have "fetchTableData (Suc pages) request tableId lg
          = Some (Inl (FailedToFetch status statusText),
                  lg @ new @ [Debug_FetchingPage tableId (length ps + 1)])"
      by (simp add: fetchTableData_def Let_def)
    with HttpError show ?thesis by auto
  next
    case (BodyRejected msg)
    with run sent have "fetchTableData (Suc pages) request tableId lg
          = Some (Inl (Rejected msg), lg @ new @ [Debug_FetchingPage tableId (length ps + 1)])"
      by (simp add: fetchTableData_def Let_def)
    with BodyRejected show ?thesis by auto
  next
    case (Page items nextPageToken)
    show ?thesis
    proof (cases "truthy nextPageToken")
      case True
      with Page srv sent show ?thesis by (simp add: served_snoc)
    next
      case False
      let ?rows = "fold (\<lambda>row m. obj_set (row_id row) row m) items rowsMap'"
      from run sent Page False have
        "fetchTableData (Suc pages) request tableId lg
         = Some (Inr ?rows,
                 lg @ (new @ [Debug_FetchingPage tableId (length ps + 1),
                              Debug_FetchedRows (length items) tableId (length ?rows),
                              Info_LoadedTable tableId (length ?rows)]))"
        by (simp add: fetchTableData_def Let_def)
      then have "\<exists>rowsMap new. fetchTableData (Suc pages) request tableId lg
                                 = Some (Inr rowsMap, lg @ new)"
        by blast
      with Page False show ?thesis by simp
    qed
  qed
qed

section \<open>A row of the batch after the rows before it\<close>

lemma expandRows_append:
  "expandRows e fuel (xs @ ys) acc st m
   = (case expandRows e fuel xs acc st m of
        None \<Rightarrow> None
      | Some (acc1, st1) \<Rightarrow> expandRows e fuel ys acc1 st1 m)"
  by (induction xs arbitrary: acc st) (auto split: option.splits)

lemma expandRows_prefix:
  "expandRows e fuel rows acc st m = Some (rows', st')
   \<Longrightarrow> take (length acc) rows' = acc \<and> length rows' = length acc + length rows"
proof (induction rows arbitrary: acc st)
  case Nil
  then show ?case by simp
next
  case (Cons row rows)
  from Cons.prems obtain row' st1 where
    rest: "expandRows e fuel rows (acc @ [row']) st1 m = Some (rows', st')"
    by (auto split: option.splits)
  from Cons.IH [OF rest] have tk: "take (Suc (length acc)) rows' = acc @ [row']"
    and len: "length rows' = Suc (length acc) + length rows"
    by simp_all
  have "take (length acc) (take (Suc (length acc)) rows') = take (length acc) (acc @ [row'])"
    by (simp only: tk)
  then have "take (length acc) rows' = acc" by simp
  with len show ?case by simp
qed

lemma expandRows_at:
  assumes "expandRows e fuel (before @ row # after) [] st m = Some (rows', st')"
  shows "\<exists>rowsBefore stReached stNext.
           expandRows e fuel before [] st m = Some (rowsBefore, stReached)
           \<and> expandRowLookups e fuel row (stReached\<lparr>processedRefs := {}\<rparr>) 0 m
               = Some (rows' ! length before, stNext)"
proof -
  from assms obtain rowsBefore stReached where
    b: "expandRows e fuel before [] st m = Some (rowsBefore, stReached)"
    and r: "expandRows e fuel (row # after) rowsBefore stReached m = Some (rows', st')"
    by (auto simp: expandRows_append split: option.splits)
  from r obtain row' stNext where
    one: "expandRowLookups e fuel row (stReached\<lparr>processedRefs := {}\<rparr>) 0 m
          = Some (row', stNext)"
    and rest: "expandRows e fuel after (rowsBefore @ [row']) stNext m = Some (rows', st')"
    by (auto split: option.splits)
  from expandRows_prefix [OF b] have lb: "length rowsBefore = length before" by simp
  from expandRows_prefix [OF rest] have
    tk: "take (Suc (length rowsBefore)) rows' = rowsBefore @ [row']"
    and len: "length rows' = Suc (length rowsBefore) + length after"
    by simp_all
  have "rows' ! length rowsBefore = (take (Suc (length rowsBefore)) rows') ! length rowsBefore"
    by simp
  also have "\<dots> = row'" by (simp only: tk) simp
  finally have "rows' ! length before = row'" using lb by simp
  with b one show ?thesis by blast
qed

section \<open>A reference whose table fetch succeeds\<close>

lemma resolveReference_fetch_succeeds:
  assumes "map_of (tableCache st) (ref_tableId (numOps e) reference) = None"
    and "map_of (cache st) (refKey (numOps e) reference) = None"
    and "fetchTableData (pageFuel e)
           (api e (requestCount st + 1) (ref_tableId (numOps e) reference))
           (ref_tableId (numOps e) reference) (logged st) = Some (Inr rowsMap, lg)"
    and "table_get rowsMap (obj_get (props reference) ''rowId'') = Some referencedRow"
  shows "resolveReference e reference st
         = Some (Some referencedRow,
                 st\<lparr>requestCount := requestCount st + 1,
                    cache := obj_set (refKey (numOps e) reference) (Some referencedRow)
                               (cache st),
                    tableCache := obj_set (ref_tableId (numOps e) reference) rowsMap
                                    (tableCache st),
                    logged := lg\<rparr>)"
  using assms by (simp add: resolveReference_def Let_def resolved_def)

lemma resolved_reference_expanded:
  assumes res: "resolveReference e reference st = Some (Some referencedRow, stResolved)"
    and fresh: "refKey (numOps e) reference \<notin> processedRefs st"
    and settles: "\<forall>k t. fetchTableData (pageFuel e) (api e k t) t [] \<noteq> None"
    and depth: "d < m" "nat (m - d) \<le> fuel"
  shows "\<exists>deeper stEnd. expandSingleReference e fuel reference st d m
                          = Some (Some (expandedReference reference deeper), stEnd)"
proof -
  from depth obtain fuel1 where f: "fuel = Suc fuel1" by (cases fuel) auto
  with depth have "nat (m - (d + 1)) \<le> fuel1" by simp
  from expansion_returns(2) [OF settles this] obtain deeper stEnd where
    "expandRowLookups e fuel1 referencedRow
       (stResolved\<lparr>processedRefs :=
                     insert (refKey (numOps e) reference) (processedRefs stResolved)\<rparr>)
       (d + 1) m = Some (deeper, stEnd)"
    by blast
  with fresh f res show ?thesis
    by (auto simp: expandSingleReference.simps)
qed

section \<open>Claims about failures of the source API\<close>

text \<open>
  C5. A table fetch fails when a page request is rejected (network error), is aborted by
  its timer or is answered with a status that is not ok, at the first page as at any
  later page, that is, when \<open>fetchTableData\<close> throws. When the fetch
  \<open>expandSingleReference\<close> makes for a reference fails, the function returns null, the
  row-level cache holds null under the reference's key and the logger has received the
  warning with the table and the error; the statement that called it goes on with the
  remaining entries or items, the original reference kept in place; a later reference to
  another table, whose fetch succeeds, is fetched and expanded in the session the failure
  left; and \<open>expandLookups\<close> returns every row of the batch, in order, each of them as
  \<open>expandRowLookups\<close> expands it in the session the rows before it left, whatever
  fetches failed there.
\<close>

theorem failed_fetch_degrades:
  assumes "refKey (numOps e) reference \<notin> processedRefs st"
    and "map_of (tableCache st) (ref_tableId (numOps e) reference) = None"
    and "map_of (cache st) (refKey (numOps e) reference) = None"
    and "fetchTableData (pageFuel e)
           (api e (requestCount st + 1) (ref_tableId (numOps e) reference))
           (ref_tableId (numOps e) reference) (logged st) = Some (Inl err, lg)"
  shows "(let st' = st\<lparr>requestCount := requestCount st + 1,
                        cache := obj_set (refKey (numOps e) reference) None (cache st),
                        logged := lg @ [Warn_FailedToFetchTable
                                          (ref_tableId (numOps e) reference) err]\<rparr>
          in expandSingleReference e fuel reference st d m = Some (None, st')
             \<and> map_of (cache st') (refKey (numOps e) reference) = Some None
             \<and> (isRawRowReference reference \<longrightarrow>
                  expandEntries e fuel ((key, reference) # entries) ev st d m
                    = expandEntries e fuel entries ev st' d m
                  \<and> expandItems e fuel (reference # items) acc h st d m
                    = expandItems e fuel items (acc @ [reference]) h st' d m)
             \<and> (refKey (numOps e) later \<notin> processedRefs st
                \<and> refKey (numOps e) later \<noteq> refKey (numOps e) reference
                \<and> map_of (tableCache st) (ref_tableId (numOps e) later) = None
                \<and> map_of (cache st) (refKey (numOps e) later) = None
                \<and> fetchTableData (pageFuel e)
                     (api e (requestCount st' + 1) (ref_tableId (numOps e) later))
                     (ref_tableId (numOps e) later) (logged st') = Some (Inr rowsMap, lgLater)
                \<and> table_get rowsMap (obj_get (props later) ''rowId'') = Some laterRow
                \<and> (\<forall>k t. fetchTableData (pageFuel e) (api e k t) t [] \<noteq> None)
                \<and> d < m \<and> nat (m - d) \<le> fuel \<longrightarrow>
                  (\<exists>deeper stEnd. expandSingleReference e fuel later st' d m
                                  = Some (Some (expandedReference later deeper), stEnd))))
     \<and> fetchTableData (Suc pages) request tableId lgBefore
       = (case request None of
            FetchRejected msg \<Rightarrow>
              Some (Inl (Rejected msg), lgBefore @ [Debug_FetchingPage tableId 1])
          | FetchAborted \<Rightarrow>
              Some (Inl (RequestTimedOut tableId), lgBefore @ [Debug_FetchingPage tableId 1])
          | HttpError status statusText \<Rightarrow>
              Some (Inl (FailedToFetch status statusText),
                    lgBefore @ [Debug_FetchingPage tableId 1])
          | BodyRejected msg \<Rightarrow>
              Some (Inl (Rejected msg), lgBefore @ [Debug_FetchingPage tableId 1])
          | Page items nextPageToken \<Rightarrow> fetchTableData (Suc pages) request tableId lgBefore)
     \<and> (served request None ps \<and> length ps \<le> pages \<longrightarrow>
          (case request (tokenAfter None ps) of
             FetchRejected msg \<Rightarrow>
               \<exists>new. fetchTableData (Suc pages) request tableId lgBefore
                      = Some (Inl (Rejected msg),
                              lgBefore @ new @ [Debug_FetchingPage tableId (length ps + 1)])
           | FetchAborted \<Rightarrow>
               \<exists>new. fetchTableData (Suc pages) request tableId lgBefore
                      = Some (Inl (RequestTimedOut tableId),
                              lgBefore @ new @ [Debug_FetchingPage tableId (length ps + 1)])
           | HttpError status statusText \<Rightarrow>
               \<exists>new. fetchTableData (Suc pages) request tableId lgBefore
                      = Some (Inl (FailedToFetch status statusText),
                              lgBefore @ new @ [Debug_FetchingPage tableId (length ps + 1)])
           | BodyRejected msg \<Rightarrow>
               \<exists>new. fetchTableData (Suc pages) request tableId lgBefore
                      = Some (Inl (Rejected msg),
                              lgBefore @ new @ [Debug_FetchingPage tableId (length ps + 1)])
           | Page items nextPageToken \<Rightarrow>
               if truthy nextPageToken
               then served request None (ps @ [(items, nextPageToken)])
               else \<exists>rowsMap new. fetchTableData (Suc pages) request tableId lgBefore
                                   = Some (Inr rowsMap, lgBefore @ new)))
     \<and> ((\<forall>k t. fetchTableData (pageFuel e) (api e k t) t [] \<noteq> None) \<and> nat maxDepth \<le> fuel
        \<longrightarrow> (\<exists>rows' lg'. expandLookups e fuel rows maxDepth = Some (rows', lg')
                         \<and> map row_id rows' = map row_id rows
                         \<and> (\<forall>before row after.
                               rows = before @ row # after \<and> 0 < maxDepth \<longrightarrow>
                               (\<exists>rowsBefore stReached stNext.
                                  expandRows e fuel before []
                                    (newSession [Info_ExpandingLookups maxDepth (length rows)])
                                    maxDepth = Some (rowsBefore, stReached)
                                  \<and> expandRowLookups e fuel row
                                      (stReached\<lparr>processedRefs := {}\<rparr>) 0 maxDepth
                                    = Some (rows' ! length before, stNext)))))"
proof -
  let ?st' = "st\<lparr>requestCount := requestCount st + 1,
                  cache := obj_set (refKey (numOps e) reference) None (cache st),
                  logged := lg @ [Warn_FailedToFetchTable
                                    (ref_tableId (numOps e) reference) err]\<rparr>"
  have single: "expandSingleReference e fuel reference st d m = Some (None, ?st')"
    using assms(1) resolveReference_fetch_fails [OF assms(2-4)]
    by (simp add: expandSingleReference.simps)
  have cached: "map_of (cache ?st') (refKey (numOps e) reference) = Some None"
    by (simp add: map_of_obj_set)
  have next_one: "\<exists>deeper stEnd. expandSingleReference e fuel later ?st' d m
                                  = Some (Some (expandedReference later deeper), stEnd)"
    if fresh: "refKey (numOps e) later \<notin> processedRefs st"
      and other: "refKey (numOps e) later \<noteq> refKey (numOps e) reference"
      and no_table: "map_of (tableCache st) (ref_tableId (numOps e) later) = None"
      and no_row: "map_of (cache st) (refKey (numOps e) later) = None"
      and fetched: "fetchTableData (pageFuel e)
                      (api e (requestCount ?st' + 1) (ref_tableId (numOps e) later))
                      (ref_tableId (numOps e) later) (logged ?st') = Some (Inr rowsMap, lgLater)"
      and found: "table_get rowsMap (obj_get (props later) ''rowId'') = Some laterRow"
      and settles: "\<forall>k t. fetchTableData (pageFuel e) (api e k t) t [] \<noteq> None"
      and depth: "d < m" "nat (m - d) \<le> fuel"
  proof -
    have t: "map_of (tableCache ?st') (ref_tableId (numOps e) later) = None"
      using no_table by simp
    have c: "map_of (cache ?st') (refKey (numOps e) later) = None"
      using no_row other by (simp add: map_of_obj_set)
    have f: "refKey (numOps e) later \<notin> processedRefs ?st'"
      using fresh by simp
    from resolved_reference_expanded
           [OF resolveReference_fetch_succeeds [OF t c fetched found] f settles depth]
    show ?thesis .
  qed
  have goes_on: "\<exists>rows' lg'. expandLookups e fuel rows maxDepth = Some (rows', lg')
                   \<and> map row_id rows' = map row_id rows
                   \<and> (\<forall>before row after.
                         rows = before @ row # after \<and> 0 < maxDepth \<longrightarrow>
                         (\<exists>rowsBefore stReached stNext.
                            expandRows e fuel before []
                              (newSession [Info_ExpandingLookups maxDepth (length rows)])
                              maxDepth = Some (rowsBefore, stReached)
                            \<and> expandRowLookups e fuel row
                                (stReached\<lparr>processedRefs := {}\<rparr>) 0 maxDepth
                              = Some (rows' ! length before, stNext)))"
    if settles: "\<forall>k t. fetchTableData (pageFuel e) (api e k t) t [] \<noteq> None"
      and enough: "nat maxDepth \<le> fuel"
  proof -
    from expandRows_returns [OF settles enough, of rows "[]"
           "newSession [Info_ExpandingLookups maxDepth (length rows)]"]
    obtain rowsEnd stEnd where
      all: "expandRows e fuel rows [] (newSession [Info_ExpandingLookups maxDepth (length rows)])
              maxDepth = Some (rowsEnd, stEnd)"
      by blast
    then have "\<exists>rows' lg'. expandLookups e fuel rows maxDepth = Some (rows', lg')"
      by (simp add: expandLookups_def)
    then obtain rows' lg' where run: "expandLookups e fuel rows maxDepth = Some (rows', lg')"
      by blast
    have each: "\<exists>rowsBefore stReached stNext.
                  expandRows e fuel before []
                    (newSession [Info_ExpandingLookups maxDepth (length rows)])
                    maxDepth = Some (rowsBefore, stReached)
                  \<and> expandRowLookups e fuel row (stReached\<lparr>processedRefs := {}\<rparr>) 0 maxDepth
                    = Some (rows' ! length before, stNext)"
      if split: "rows = before @ row # after" and pos: "0 < maxDepth" for before row after
    proof -
      from run all pos have "rows' = rowsEnd" by (simp add: expandLookups_def)
      with all have
        "expandRows e fuel (before @ row # after) []
           (newSession [Info_ExpandingLookups maxDepth (length rows)]) maxDepth
         = Some (rows', stEnd)"
        by (simp only: split [symmetric])
      then show ?thesis by (rule expandRows_at)
    qed
    from expandLookups_ids [OF run] run each show ?thesis by blast
  qed
  have at_reference:
    "let st' = ?st'
     in expandSingleReference e fuel reference st d m = Some (None, st')
        \<and> map_of (cache st') (refKey (numOps e) reference) = Some None
        \<and> (isRawRowReference reference \<longrightarrow>
             expandEntries e fuel ((key, reference) # entries) ev st d m
               = expandEntries e fuel entries ev st' d m
             \<and> expandItems e fuel (reference # items) acc h st d m
               = expandItems e fuel items (acc @ [reference]) h st' d m)
        \<and> (refKey (numOps e) later \<notin> processedRefs st
           \<and> refKey (numOps e) later \<noteq> refKey (numOps e) reference
           \<and> map_of (tableCache st) (ref_tableId (numOps e) later) = None
           \<and> map_of (cache st) (refKey (numOps e) later) = None
           \<and> fetchTableData (pageFuel e)
                (api e (requestCount st' + 1) (ref_tableId (numOps e) later))
                (ref_tableId (numOps e) later) (logged st') = Some (Inr rowsMap, lgLater)
           \<and> table_get rowsMap (obj_get (props later) ''rowId'') = Some laterRow
           \<and> (\<forall>k t. fetchTableData (pageFuel e) (api e k t) t [] \<noteq> None)
           \<and> d < m \<and> nat (m - d) \<le> fuel \<longrightarrow>
             (\<exists>deeper stEnd. expandSingleReference e fuel later st' d m
                             = Some (Some (expandedReference later deeper), stEnd)))"
    unfolding Let_def
  proof (intro conjI)
    show "expandSingleReference e fuel reference st d m = Some (None, ?st')"
      by (rule single)
    show "map_of (cache ?st') (refKey (numOps e) reference) = Some None"
      by (rule cached)
    show "isRawRowReference reference \<longrightarrow>
             expandEntries e fuel ((key, reference) # entries) ev st d m
               = expandEntries e fuel entries ev ?st' d m
             \<and> expandItems e fuel (reference # items) acc h st d m
               = expandItems e fuel items (acc @ [reference]) h ?st' d m"
      using single by simp
    show "refKey (numOps e) later \<notin> processedRefs st
           \<and> refKey (numOps e) later \<noteq> refKey (numOps e) reference
           \<and> map_of (tableCache st) (ref_tableId (numOps e) later) = None
           \<and> map_of (cache st) (refKey (numOps e) later) = None
           \<and> fetchTableData (pageFuel e)
                (api e (requestCount ?st' + 1) (ref_tableId (numOps e) later))
                (ref_tableId (numOps e) later) (logged ?st') = Some (Inr rowsMap, lgLater)
           \<and> table_get rowsMap (obj_get (props later) ''rowId'') = Some laterRow
           \<and> (\<forall>k t. fetchTableData (pageFuel e) (api e k t) t [] \<noteq> None)
           \<and> d < m \<and> nat (m - d) \<le> fuel \<longrightarrow>
             (\<exists>deeper stEnd. expandSingleReference e fuel later ?st' d m
                             = Some (Some (expandedReference later deeper), stEnd))"
      using next_one by blast
  qed
  have any_page: "served request None ps \<and> length ps \<le> pages \<longrightarrow>
          (case request (tokenAfter None ps) of
             FetchRejected msg \<Rightarrow>
               \<exists>new. fetchTableData (Suc pages) request tableId lgBefore
                      = Some (Inl (Rejected msg),
                              lgBefore @ new @ [Debug_FetchingPage tableId (length ps + 1)])
           | FetchAborted \<Rightarrow>
               \<exists>new. fetchTableData (Suc pages) request tableId lgBefore
                      = Some (Inl (RequestTimedOut tableId),
                              lgBefore @ new @ [Debug_FetchingPage tableId (length ps + 1)])
           | HttpError status statusText \<Rightarrow>
               \<exists>new. fetchTableData (Suc pages) request tableId lgBefore
                      = Some (Inl (FailedToFetch status statusText),
                              lgBefore @ new @ [Debug_FetchingPage tableId (length ps + 1)])
           | BodyRejected msg \<Rightarrow>
               \<exists>new. fetchTableData (Suc pages) request tableId lgBefore
                      = Some (Inl (Rejected msg),
                              lgBefore @ new @ [Debug_FetchingPage tableId (length ps + 1)])
           | Page items nextPageToken \<Rightarrow>
               if truthy nextPageToken
               then served request None (ps @ [(items, nextPageToken)])
               else \<exists>rowsMap new. fetchTableData (Suc pages) request tableId lgBefore
                                   = Some (Inr rowsMap, lgBefore @ new))"
    using fetchTableData_any_page [of request ps pages tableId lgBefore] by blast
  show ?thesis
    by (intro conjI) (rule at_reference, rule fetchTableData_first_page, rule any_page,
         use goes_on in blast)
qed

theorem failed_fetch_degrades_witness:
  "refKey (numOps flakyEnv) (mkRef ''P'' ''x'') \<notin> processedRefs (newSession [])
   \<and> map_of (tableCache (newSession [] :: int session))
         (ref_tableId (numOps flakyEnv) (mkRef ''P'' ''x'')) = None
   \<and> map_of (cache (newSession [] :: int session))
         (refKey (numOps flakyEnv) (mkRef ''P'' ''x'')) = None
   \<and> fetchTableData (pageFuel flakyEnv)
         (api flakyEnv (requestCount (newSession [] :: int session) + 1)
            (ref_tableId (numOps flakyEnv) (mkRef ''P'' ''x'')))
         (ref_tableId (numOps flakyEnv) (mkRef ''P'' ''x''))
         (logged (newSession [] :: int session))
       = Some (Inl (FailedToFetch 500 ''Internal Server Error''),
               [Debug_FetchingPage ''P'' 1, Debug_FetchedRows 1 ''P'' 1,
                Debug_FetchingPage ''P'' 2])
   \<and> isRawRowReference (mkRef ''P'' ''x'')
   \<and> refKey (numOps flakyEnv) (mkRef ''T'' ''C'') \<notin> processedRefs (newSession [])
   \<and> refKey (numOps flakyEnv) (mkRef ''T'' ''C'') \<noteq> refKey (numOps flakyEnv) (mkRef ''P'' ''x'')
   \<and> map_of (tableCache (newSession [] :: int session))
         (ref_tableId (numOps flakyEnv) (mkRef ''T'' ''C'')) = None
   \<and> map_of (cache (newSession [] :: int session))
         (refKey (numOps flakyEnv) (mkRef ''T'' ''C'')) = None
   \<and> fetchTableData (pageFuel flakyEnv) (api flakyEnv 2 ''T'') ''T''
         [Debug_FetchingPage ''P'' 1, Debug_FetchedRows 1 ''P'' 1, Debug_FetchingPage ''P'' 2,
          Warn_FailedToFetchTable ''P'' (FailedToFetch 500 ''Internal Server Error'')]
       = Some (Inr [(''A'', rowA), (''B'', rowB), (''C'', rowC)],
               [Debug_FetchingPage ''P'' 1, Debug_FetchedRows 1 ''P'' 1,
                Debug_FetchingPage ''P'' 2,
                Warn_FailedToFetchTable ''P'' (FailedToFetch 500 ''Internal Server Error''),
                Debug_FetchingPage ''T'' 1, Debug_FetchedRows 3 ''T'' 3,
                Info_LoadedTable ''T'' 3])
   \<and> table_get [(''A'', rowA), (''B'', rowB), (''C'', rowC)]
        (obj_get (props (mkRef ''T'' ''C'')) ''rowId'') = Some rowC
   \<and> (\<forall>k t. fetchTableData (pageFuel flakyEnv) (api flakyEnv k t) t [] \<noteq> None)
   \<and> (0::int) < 1 \<and> nat (1 - 0) \<le> (1::nat) \<and> nat 1 \<le> (1::nat)
   \<and> served (api flakyEnv 1 ''P'') None [([rowC], Some ''p2'')]
   \<and> length [([rowC], Some ''p2'')] \<le> (1::nat)
   \<and> expandSingleReference flakyEnv 1 (mkRef ''P'' ''x'') (newSession []) 0 1
       = Some (None,
               \<lparr>processedRefs = {}, cache = [(''P:x'', None)], tableCache = [],
                requestCount = 1,
                logged = [Debug_FetchingPage ''P'' 1, Debug_FetchedRows 1 ''P'' 1,
                          Debug_FetchingPage ''P'' 2,
                          Warn_FailedToFetchTable ''P''
                            (FailedToFetch 500 ''Internal Server Error'')]\<rparr>)
   \<and> (\<exists>deeper stEnd.
         expandSingleReference flakyEnv 1 (mkRef ''T'' ''C'')
           \<lparr>processedRefs = {}, cache = [(''P:x'', None)], tableCache = [],
            requestCount = 1,
            logged = [Debug_FetchingPage ''P'' 1, Debug_FetchedRows 1 ''P'' 1,
                      Debug_FetchingPage ''P'' 2,
                      Warn_FailedToFetchTable ''P''
                        (FailedToFetch 500 ''Internal Server Error'')]\<rparr> 0 1
         = Some (Some (expandedReference (mkRef ''T'' ''C'') deeper), stEnd))
   \<and> (\<exists>new. fetchTableData (Suc 1) (api flakyEnv 1 ''P'') ''P'' []
              = Some (Inl (FailedToFetch 500 ''Internal Server Error''),
                      [] @ new @ [Debug_FetchingPage ''P'' 2]))
   \<and> expandLookups flakyEnv 1
        [mkRow ''R1'' [(''c-1'', mkRef ''P'' ''x'')], mkRow ''R2'' [(''c-1'', mkRef ''T'' ''C'')]] 1
       = Some ([mkRow ''R1'' [(''c-1'', mkRef ''P'' ''x'')],
                mkRow ''R2'' [(''c-1'', expandedReference (mkRef ''T'' ''C'') rowC)]],
               [Info_ExpandingLookups 1 2, Debug_FetchingPage ''P'' 1,
                Debug_FetchedRows 1 ''P'' 1, Debug_FetchingPage ''P'' 2,
                Warn_FailedToFetchTable ''P'' (FailedToFetch 500 ''Internal Server Error''),
                Debug_FetchingPage ''T'' 1, Debug_FetchedRows 3 ''T'' 3,
                Info_LoadedTable ''T'' 3, Debug_ExpandedRef ''C'' 0,
                Info_ExpansionCompleted 2 1 3, Debug_SampleRow ''R1''])
   \<and> (\<exists>rowsBefore stReached stNext.
         expandRows flakyEnv 1 [mkRow ''R1'' [(''c-1'', mkRef ''P'' ''x'')]] []
           (newSession [Info_ExpandingLookups 1 2]) 1 = Some (rowsBefore, stReached)
         \<and> expandRowLookups flakyEnv 1 (mkRow ''R2'' [(''c-1'', mkRef ''T'' ''C'')])
             (stReached\<lparr>processedRefs := {}\<rparr>) 0 1
           = Some (mkRow ''R2'' [(''c-1'', expandedReference (mkRef ''T'' ''C'') rowC)], stNext))"
proof -
  let ?failed = "\<lparr>processedRefs = {}, cache = [(''P:x'', None)], tableCache = [],
                  requestCount = 1,
                  logged = [Debug_FetchingPage ''P'' 1, Debug_FetchedRows 1 ''P'' 1,
                            Debug_FetchingPage ''P'' 2,
                            Warn_FailedToFetchTable ''P''
                              (FailedToFetch 500 ''Internal Server Error'')]\<rparr> :: int session"
  let ?rows = "[mkRow ''R1'' [(''c-1'', mkRef ''P'' ''x'')],
                mkRow ''R2'' [(''c-1'', mkRef ''T'' ''C'')]]"
  let ?expanded = "[mkRow ''R1'' [(''c-1'', mkRef ''P'' ''x'')],
                    mkRow ''R2'' [(''c-1'', expandedReference (mkRef ''T'' ''C'') rowC)]]"
  have h1: "refKey (numOps flakyEnv) (mkRef ''P'' ''x'') \<notin> processedRefs (newSession [])"
    by (simp add: newSession_def)
  have h2: "map_of (tableCache (newSession [] :: int session))
              (ref_tableId (numOps flakyEnv) (mkRef ''P'' ''x'')) = None"
    by (simp add: newSession_def)
  have h3: "map_of (cache (newSession [] :: int session))
              (refKey (numOps flakyEnv) (mkRef ''P'' ''x'')) = None"
    by (simp add: newSession_def)
  have h4: "fetchTableData (pageFuel flakyEnv)
              (api flakyEnv (requestCount (newSession [] :: int session) + 1)
                 (ref_tableId (numOps flakyEnv) (mkRef ''P'' ''x'')))
              (ref_tableId (numOps flakyEnv) (mkRef ''P'' ''x''))
              (logged (newSession [] :: int session))
            = Some (Inl (FailedToFetch 500 ''Internal Server Error''),
                    [Debug_FetchingPage ''P'' 1, Debug_FetchedRows 1 ''P'' 1,
                     Debug_FetchingPage ''P'' 2])"
    by code_simp
  have h5: "isRawRowReference (mkRef ''P'' ''x'')"
    by code_simp
  have k1: "refKey (numOps flakyEnv) (mkRef ''T'' ''C'') \<notin> processedRefs (newSession [])"
    by (simp add: newSession_def)
  have k2: "refKey (numOps flakyEnv) (mkRef ''T'' ''C'')
            \<noteq> refKey (numOps flakyEnv) (mkRef ''P'' ''x'')"
    by code_simp
  have k3: "map_of (tableCache (newSession [] :: int session))
              (ref_tableId (numOps flakyEnv) (mkRef ''T'' ''C'')) = None"
    by (simp add: newSession_def)
  have k4: "map_of (cache (newSession [] :: int session))
              (refKey (numOps flakyEnv) (mkRef ''T'' ''C'')) = None"
    by (simp add: newSession_def)
  have k5: "fetchTableData (pageFuel flakyEnv) (api flakyEnv 2 ''T'') ''T''
              [Debug_FetchingPage ''P'' 1, Debug_FetchedRows 1 ''P'' 1,
               Debug_FetchingPage ''P'' 2,
               Warn_FailedToFetchTable ''P'' (FailedToFetch 500 ''Internal Server Error'')]
            = Some (Inr [(''A'', rowA), (''B'', rowB), (''C'', rowC)],
                    [Debug_FetchingPage ''P'' 1, Debug_FetchedRows 1 ''P'' 1,
                     Debug_FetchingPage ''P'' 2,
                     Warn_FailedToFetchTable ''P'' (FailedToFetch 500 ''Internal Server Error''),
                     Debug_FetchingPage ''T'' 1, Debug_FetchedRows 3 ''T'' 3,
                     Info_LoadedTable ''T'' 3])"
    by code_simp
  have k6: "table_get [(''A'', rowA), (''B'', rowB), (''C'', rowC)]
              (obj_get (props (mkRef ''T'' ''C'')) ''rowId'') = Some rowC"
    by code_simp
  have h6: "\<forall>k t. fetchTableData (pageFuel flakyEnv) (api flakyEnv k t) t [] \<noteq> None"
    by (simp add: flakyEnv_def flakyApi_def fetchTableData_def truthy_def Let_def
          numeral_2_eq_2)
  have h7: "(0::int) < 1 \<and> nat (1 - 0) \<le> (1::nat) \<and> nat 1 \<le> (1::nat)"
    by simp
  have p1: "served (api flakyEnv 1 ''P'') None [([rowC], Some ''p2'')]"
    by (simp add: flakyEnv_def flakyApi_def truthy_def)
  have p2: "length [([rowC], Some ''p2'')] \<le> (1::nat)"
    by simp
  have key: "refKey (numOps flakyEnv) (mkRef ''P'' ''x'') = ''P:x''"
    and tbl: "ref_tableId (numOps flakyEnv) (mkRef ''P'' ''x'') = ''P''"
    and tblLater: "ref_tableId (numOps flakyEnv) (mkRef ''T'' ''C'') = ''T''"
    by code_simp+
  have failed: "(newSession [])
                  \<lparr>requestCount := requestCount (newSession [] :: int session) + 1,
                   cache := obj_set (refKey (numOps flakyEnv) (mkRef ''P'' ''x'')) None
                              (cache (newSession [] :: int session)),
                   logged := [Debug_FetchingPage ''P'' 1, Debug_FetchedRows 1 ''P'' 1,
                              Debug_FetchingPage ''P'' 2]
                             @ [Warn_FailedToFetchTable
                                  (ref_tableId (numOps flakyEnv) (mkRef ''P'' ''x''))
                                  (FailedToFetch 500 ''Internal Server Error'')]\<rparr>
                = ?failed"
    by (simp add: key tbl newSession_def obj_set_def)
  note inst = failed_fetch_degrades
    [OF h1 h2 h3 h4, unfolded Let_def failed, where fuel = 1 and d = 0 and m = 1
       and maxDepth = 1 and key = "''c-1''" and entries = "[]" and ev = "[]" and items = "[]"
       and acc = "[]" and h = False and later = "mkRef ''T'' ''C''"
       and rowsMap = "[(''A'', rowA), (''B'', rowB), (''C'', rowC)]"
       and lgLater = "[Debug_FetchingPage ''P'' 1, Debug_FetchedRows 1 ''P'' 1,
                       Debug_FetchingPage ''P'' 2,
                       Warn_FailedToFetchTable ''P''
                         (FailedToFetch 500 ''Internal Server Error''),
                       Debug_FetchingPage ''T'' 1, Debug_FetchedRows 3 ''T'' 3,
                       Info_LoadedTable ''T'' 3]"
       and laterRow = rowC and pages = 1 and request = "api flakyEnv 1 ''P''"
       and tableId = "''P''" and lgBefore = "[]" and ps = "[([rowC], Some ''p2'')]"
       and rows = ?rows]
  have k5': "fetchTableData (pageFuel flakyEnv)
               (api flakyEnv (requestCount ?failed + 1)
                  (ref_tableId (numOps flakyEnv) (mkRef ''T'' ''C'')))
               (ref_tableId (numOps flakyEnv) (mkRef ''T'' ''C'')) (logged ?failed)
             = Some (Inr [(''A'', rowA), (''B'', rowB), (''C'', rowC)],
                     [Debug_FetchingPage ''P'' 1, Debug_FetchedRows 1 ''P'' 1,
                      Debug_FetchingPage ''P'' 2,
                      Warn_FailedToFetchTable ''P''
                        (FailedToFetch 500 ''Internal Server Error''),
                      Debug_FetchingPage ''T'' 1, Debug_FetchedRows 3 ''T'' 3,
                      Info_LoadedTable ''T'' 3])"
    by code_simp
  from inst
  have c1: "expandSingleReference flakyEnv 1 (mkRef ''P'' ''x'') (newSession []) 0 1
            = Some (None, ?failed)"
    by blast
  from inst k1 k2 k3 k4 k5' k6 h6 h7
  have c2: "\<exists>deeper stEnd.
              expandSingleReference flakyEnv 1 (mkRef ''T'' ''C'') ?failed 0 1
              = Some (Some (expandedReference (mkRef ''T'' ''C'') deeper), stEnd)"
    by blast
  have page2: "api flakyEnv 1 ''P'' (tokenAfter None [([rowC], Some ''p2'')])
               = HttpError 500 ''Internal Server Error''"
    by (simp add: flakyEnv_def flakyApi_def)
  from inst p1 p2
  have "case api flakyEnv 1 ''P'' (tokenAfter None [([rowC], Some ''p2'')]) of
          FetchRejected msg \<Rightarrow>
            \<exists>new. fetchTableData (Suc 1) (api flakyEnv 1 ''P'') ''P'' []
                   = Some (Inl (Rejected msg),
                           [] @ new @ [Debug_FetchingPage ''P''
                                         (length [([rowC], Some ''p2'')] + 1)])
        | FetchAborted \<Rightarrow>
            \<exists>new. fetchTableData (Suc 1) (api flakyEnv 1 ''P'') ''P'' []
                   = Some (Inl (RequestTimedOut ''P''),
                           [] @ new @ [Debug_FetchingPage ''P''
                                         (length [([rowC], Some ''p2'')] + 1)])
        | HttpError status statusText \<Rightarrow>
            \<exists>new. fetchTableData (Suc 1) (api flakyEnv 1 ''P'') ''P'' []
                   = Some (Inl (FailedToFetch status statusText),
                           [] @ new @ [Debug_FetchingPage ''P''
                                         (length [([rowC], Some ''p2'')] + 1)])
        | BodyRejected msg \<Rightarrow>
            \<exists>new. fetchTableData (Suc 1) (api flakyEnv 1 ''P'') ''P'' []
                   = Some (Inl (Rejected msg),
                           [] @ new @ [Debug_FetchingPage ''P''
                                         (length [([rowC], Some ''p2'')] + 1)])
        | Page items nextPageToken \<Rightarrow>
            if truthy nextPageToken
            then served (api flakyEnv 1 ''P'') None
                   ([([rowC], Some ''p2'')] @ [(items, nextPageToken)])
            else \<exists>rowsMap new. fetchTableData (Suc 1) (api flakyEnv 1 ''P'') ''P'' []
                                = Some (Inr rowsMap, [] @ new)"
    by blast
  then have c3: "\<exists>new. fetchTableData (Suc 1) (api flakyEnv 1 ''P'') ''P'' []
                        = Some (Inl (FailedToFetch 500 ''Internal Server Error''),
                                [] @ new @ [Debug_FetchingPage ''P'' 2])"
    by (simp only: page2 http_result.case) (simp add: numeral_2_eq_2)
  have c4: "expandLookups flakyEnv 1 ?rows 1
            = Some (?expanded,
                    [Info_ExpandingLookups 1 2, Debug_FetchingPage ''P'' 1,
                     Debug_FetchedRows 1 ''P'' 1, Debug_FetchingPage ''P'' 2,
                     Warn_FailedToFetchTable ''P'' (FailedToFetch 500 ''Internal Server Error''),
                     Debug_FetchingPage ''T'' 1, Debug_FetchedRows 3 ''T'' 3,
                     Info_LoadedTable ''T'' 3, Debug_ExpandedRef ''C'' 0,
                     Info_ExpansionCompleted 2 1 3, Debug_SampleRow ''R1''])"
    by code_simp
  from inst h6 h7 obtain rows' lg' where
    run: "expandLookups flakyEnv 1 ?rows 1 = Some (rows', lg')"
    and each: "\<forall>before row after.
                 ?rows = before @ row # after \<and> (0::int) < 1 \<longrightarrow>
                 (\<exists>rowsBefore stReached stNext.
                    expandRows flakyEnv 1 before []
                      (newSession [Info_ExpandingLookups 1 (length ?rows)]) 1
                    = Some (rowsBefore, stReached)
                    \<and> expandRowLookups flakyEnv 1 row (stReached\<lparr>processedRefs := {}\<rparr>) 0 1
                      = Some (rows' ! length before, stNext))"
    by blast
  from run c4 have rows': "rows' = ?expanded" by simp
  have "?rows = [mkRow ''R1'' [(''c-1'', mkRef ''P'' ''x'')]]
                @ mkRow ''R2'' [(''c-1'', mkRef ''T'' ''C'')] # [] \<and> (0::int) < 1"
    by simp
  with each have
    "\<exists>rowsBefore stReached stNext.
       expandRows flakyEnv 1 [mkRow ''R1'' [(''c-1'', mkRef ''P'' ''x'')]] []
         (newSession [Info_ExpandingLookups 1 (length ?rows)]) 1
       = Some (rowsBefore, stReached)
       \<and> expandRowLookups flakyEnv 1 (mkRow ''R2'' [(''c-1'', mkRef ''T'' ''C'')])
           (stReached\<lparr>processedRefs := {}\<rparr>) 0 1
         = Some (rows' ! length [mkRow ''R1'' [(''c-1'', mkRef ''P'' ''x'')]], stNext)"
    by blast
  moreover have "length ?rows = 2"
    by simp
  moreover have "rows' ! length [mkRow ''R1'' [(''c-1'', mkRef ''P'' ''x'')]]
                 = mkRow ''R2'' [(''c-1'', expandedReference (mkRef ''T'' ''C'') rowC)]"
    by (simp add: rows')
  ultimately have c5: "\<exists>rowsBefore stReached stNext.
         expandRows flakyEnv 1 [mkRow ''R1'' [(''c-1'', mkRef ''P'' ''x'')]] []
           (newSession [Info_ExpandingLookups 1 2]) 1 = Some (rowsBefore, stReached)
         \<and> expandRowLookups flakyEnv 1 (mkRow ''R2'' [(''c-1'', mkRef ''T'' ''C'')])
             (stReached\<lparr>processedRefs := {}\<rparr>) 0 1
           = Some (mkRow ''R2'' [(''c-1'', expandedReference (mkRef ''T'' ''C'') rowC)], stNext)"
    by (simp only:)
  from h1 h2 h3 h4 h5 k1 k2 k3 k4 k5 k6 h6 h7 p1 p2 c1 c2 c3 c4 c5 show ?thesis
    by (intro conjI) blast+
qed

section \<open>The caches\<close>

lemma tableFetches_append [simp]: "tableFetches (a @ b) = tableFetches a @ tableFetches b"
  by (simp add: tableFetches_def)

lemma tableFetches_Nil [simp]: "tableFetches [] = []"
  by (simp add: tableFetches_def)

lemma tableFetches_single [simp]: "tableFetches [x] = fetchedTable x"
  by (simp add: tableFetches_def)

lemma fetchPages_fetches:
  "fetchPages fuel request tableId pageToken pageCount rowsMap [] = Some (res, new)
   \<Longrightarrow> tableFetches new = (if pageCount = 0 then [tableId] else [])"
proof (induction fuel arbitrary: pageToken pageCount rowsMap new)
  case 0
  then show ?case by simp
next
  case (Suc fuel)
  show ?case
  proof (cases "request (if truthy pageToken then pageToken else None)")
    case (Page items nextPageToken)
    let ?rows = "fold (\<lambda>row m. obj_set (row_id row) row m) items rowsMap"
    let ?two = "[Debug_FetchingPage tableId (pageCount + 1),
                 Debug_FetchedRows (length items) tableId (length ?rows)]"
    have two: "tableFetches ?two = (if pageCount = 0 then [tableId] else [])"
      by (simp add: tableFetches_def fetchedTable_def)
    show ?thesis
    proof (cases "truthy nextPageToken")
      case True
      with Suc.prems Page
      have "fetchPages fuel request tableId nextPageToken (pageCount + 1) ?rows ?two
            = Some (res, new)"
        by (simp add: Let_def)
      then obtain more where
        more: "fetchPages fuel request tableId nextPageToken (pageCount + 1) ?rows []
               = Some (res, more)"
        and new: "new = ?two @ more"
        by (subst (asm) fetchPages_log) auto
      from Suc.IH [OF more] have none: "tableFetches more = []" by simp
      have "tableFetches new = tableFetches ?two @ tableFetches more"
        unfolding new by (rule tableFetches_append)
      with two none show ?thesis by simp
    next
      case False
      with Suc.prems Page have "new = ?two" by (auto simp: Let_def)
      with two show ?thesis by simp
    qed
  qed (use Suc.prems in \<open>auto simp: Let_def tableFetches_def fetchedTable_def\<close>)
qed

lemma fetchTableData_fetches:
  assumes "fetchTableData fuel request tableId lg = Some (res, lg')"
  shows "tableFetches lg' = tableFetches lg @ [tableId]"
proof -
  from assms obtain new where
    new: "fetchTableData fuel request tableId [] = Some (res, new)" and lg': "lg' = lg @ new"
    by (subst (asm) fetchTableData_log) auto
  from new obtain res1 new1 where
    pages: "fetchPages fuel request tableId None 0 [] [] = Some (res1, new1)"
    and shape: "new = new1 \<or> (\<exists>n. new = new1 @ [Info_LoadedTable tableId n])"
    by (auto simp: fetchTableData_def split: option.splits sum.splits)
  from fetchPages_fetches [OF pages] have "tableFetches new1 = [tableId]" by simp
  with shape have "tableFetches new = [tableId]"
    by (auto simp: fetchedTable_def)
  then show ?thesis by (simp add: lg')
qed

text \<open>What the resolution of a reference does to the caches, the counter and the table
  fetches: nothing, or one fetch of a table that was not in the table cache, which enters
  the table cache if the fetch succeeds.\<close>

lemma resolveReference_effect:
  assumes "resolveReference e reference st = Some (r, st')"
  shows "(tableCache st' = tableCache st \<and> requestCount st' = requestCount st
          \<and> tableFetches (logged st') = tableFetches (logged st))
       \<or> (map_of (tableCache st) (ref_tableId (numOps e) reference) = None
          \<and> requestCount st' = requestCount st + 1
          \<and> tableFetches (logged st')
              = tableFetches (logged st) @ [ref_tableId (numOps e) reference]
          \<and> ((\<exists>err lg. fetchTableData (pageFuel e)
                           (api e (requestCount st + 1) (ref_tableId (numOps e) reference))
                           (ref_tableId (numOps e) reference) (logged st) = Some (Inl err, lg)
                         \<and> tableCache st' = tableCache st)
             \<or> (\<exists>rowsMap lg. fetchTableData (pageFuel e)
                           (api e (requestCount st + 1) (ref_tableId (numOps e) reference))
                           (ref_tableId (numOps e) reference) (logged st)
                             = Some (Inr rowsMap, lg)
                         \<and> tableCache st'
                             = obj_set (ref_tableId (numOps e) reference) rowsMap
                                 (tableCache st))))"
proof (cases "map_of (tableCache st) (ref_tableId (numOps e) reference)")
  case (Some rowsMap)
  with assms show ?thesis
    by (auto simp: resolveReference_def Let_def resolved_def logs_def fetchedTable_def
          split: option.splits if_splits)
next
  case None
  show ?thesis
  proof (cases "map_of (cache st) (refKey (numOps e) reference)")
    case (Some cached)
    with None assms show ?thesis
      by (auto simp: resolveReference_def Let_def resolved_def logs_def fetchedTable_def
            split: option.splits if_splits)
  next
    case noRow: None
    let ?t = "ref_tableId (numOps e) reference"
    from assms None noRow obtain res lg where
      fetch: "fetchTableData (pageFuel e) (api e (requestCount st + 1) ?t) ?t (logged st)
              = Some (res, lg)"
      by (auto simp: resolveReference_def Let_def split: option.splits)
    note fetches = fetchTableData_fetches [OF fetch]
    show ?thesis
    proof (cases res)
      case (Inl err)
      with assms None noRow fetch fetches show ?thesis
        by (auto simp: resolveReference_def Let_def fetchedTable_def)
    next
      case (Inr rowsMap)
      with assms None noRow fetch fetches show ?thesis
        by (auto simp: resolveReference_def Let_def resolved_def logs_def fetchedTable_def
              split: option.splits)
    qed
  qed
qed

lemma resolveReference_cache_kept:
  assumes "resolveReference e reference st = Some (r, st')"
    and "map_of (cache st) k = Some v"
  shows "map_of (cache st') k = Some v"
  using assms
  by (auto simp: resolveReference_def Let_def resolved_def logs_def map_of_obj_set
        split: option.splits if_splits sum.splits)
lemma cacheStep_refl: "cacheStep e T st st"
  unfolding cacheStep_def by (rule exI [of _ "[]"]) simp

lemma cacheStep_trans:
  assumes "cacheStep e T a b" and "cacheStep e T b c"
  shows "cacheStep e T a c"
proof -
  from assms(1) obtain ts1 where
    f1: "tableFetches (logged b) = tableFetches (logged a) @ ts1"
    and c1: "requestCount b = requestCount a + length ts1"
    and t1: "\<And>t rowsMap. map_of (tableCache a) t = Some rowsMap \<Longrightarrow>
               map_of (tableCache b) t = Some rowsMap \<and> t \<notin> set ts1"
    and r1: "\<And>k v. map_of (cache a) k = Some v \<Longrightarrow> map_of (cache b) k = Some v"
    and h1: "(\<forall>k. \<exists>rowsMap new.
                fetchTableData (pageFuel e) (api e k T) T [] = Some (Inr rowsMap, new))
             \<Longrightarrow> count_list ts1 T \<le> 1 \<and> (T \<in> set ts1 \<longrightarrow> map_of (tableCache b) T \<noteq> None)"
    unfolding cacheStep_def by blast
  from assms(2) obtain ts2 where
    f2: "tableFetches (logged c) = tableFetches (logged b) @ ts2"
    and c2: "requestCount c = requestCount b + length ts2"
    and t2: "\<And>t rowsMap. map_of (tableCache b) t = Some rowsMap \<Longrightarrow>
               map_of (tableCache c) t = Some rowsMap \<and> t \<notin> set ts2"
    and r2: "\<And>k v. map_of (cache b) k = Some v \<Longrightarrow> map_of (cache c) k = Some v"
    and h2: "(\<forall>k. \<exists>rowsMap new.
                fetchTableData (pageFuel e) (api e k T) T [] = Some (Inr rowsMap, new))
             \<Longrightarrow> count_list ts2 T \<le> 1 \<and> (T \<in> set ts2 \<longrightarrow> map_of (tableCache c) T \<noteq> None)"
    unfolding cacheStep_def by blast
  have tables: "map_of (tableCache c) t = Some rowsMap \<and> t \<notin> set (ts1 @ ts2)"
    if "map_of (tableCache a) t = Some rowsMap" for t rowsMap
    using t1 [OF that] t2 [of t rowsMap] by simp
  have rows: "map_of (cache c) k = Some v" if "map_of (cache a) k = Some v" for k v
    using r2 [OF r1 [OF that]] .
  have once: "count_list (ts1 @ ts2) T \<le> 1
              \<and> (T \<in> set (ts1 @ ts2) \<longrightarrow> map_of (tableCache c) T \<noteq> None)"
    if H: "\<forall>k. \<exists>rowsMap new.
             fetchTableData (pageFuel e) (api e k T) T [] = Some (Inr rowsMap, new)"
  proof (cases "T \<in> set ts1")
    case True
    with h1 [OF H] obtain rowsMap where "map_of (tableCache b) T = Some rowsMap" by auto
    from t2 [OF this] have "map_of (tableCache c) T \<noteq> None" "T \<notin> set ts2" by simp_all
    then have "count_list ts2 T = 0" by simp
    with h1 [OF H] \<open>map_of (tableCache c) T \<noteq> None\<close> show ?thesis by simp
  next
    case False
    then have "count_list ts1 T = 0" by simp
    with h2 [OF H] False show ?thesis by simp
  qed
  show ?thesis
    unfolding cacheStep_def
    using f1 f2 c1 c2 tables rows once
    by (intro exI [of _ "ts1 @ ts2"]) simp
qed

lemma cacheStep_resolve:
  assumes "resolveReference e reference st = Some (r, st')"
  shows "cacheStep e T st st'"
proof -
  let ?t = "ref_tableId (numOps e) reference"
  note kept = resolveReference_cache_kept [OF assms]
  from resolveReference_effect [OF assms]
  consider
    (quiet) "tableCache st' = tableCache st" "requestCount st' = requestCount st"
      "tableFetches (logged st') = tableFetches (logged st)"
  | (failed) err lg where "map_of (tableCache st) ?t = None"
      "requestCount st' = requestCount st + 1"
      "tableFetches (logged st') = tableFetches (logged st) @ [?t]"
      "fetchTableData (pageFuel e) (api e (requestCount st + 1) ?t) ?t (logged st)
       = Some (Inl err, lg)"
      "tableCache st' = tableCache st"
  | (loaded) rowsMap where "map_of (tableCache st) ?t = None"
      "requestCount st' = requestCount st + 1"
      "tableFetches (logged st') = tableFetches (logged st) @ [?t]"
      "tableCache st' = obj_set ?t rowsMap (tableCache st)"
    by blast
  then show ?thesis
  proof cases
    case quiet
    with kept show ?thesis
      unfolding cacheStep_def by (intro exI [of _ "[]"]) simp
  next
    case failed
    have "T \<noteq> ?t"
      if H: "\<forall>k. \<exists>rowsMap new.
               fetchTableData (pageFuel e) (api e k T) T [] = Some (Inr rowsMap, new)"
    proof
      assume "T = ?t"
      with H obtain rowsMap new where
        "fetchTableData (pageFuel e) (api e (requestCount st + 1) ?t) ?t []
         = Some (Inr rowsMap, new)"
        by metis
      then have "fetchTableData (pageFuel e) (api e (requestCount st + 1) ?t) ?t (logged st)
                 = Some (Inr rowsMap, logged st @ new)"
        by (subst fetchTableData_log) simp
      with failed(4) show False by simp
    qed
    with failed kept show ?thesis
      unfolding cacheStep_def by (intro exI [of _ "[?t]"]) auto
  next
    case loaded
    with kept show ?thesis
      unfolding cacheStep_def by (intro exI [of _ "[?t]"]) (auto simp: map_of_obj_set)
  qed
qed

lemma cacheStep_mark:
  "cacheStep e T st (st\<lparr>processedRefs := ps\<rparr>)"
  unfolding cacheStep_def by (rule exI [of _ "[]"]) simp

lemma cacheStep_logs:
  "fetchedTable entry = [] \<Longrightarrow> cacheStep e T st (logs entry st)"
  unfolding cacheStep_def by (rule exI [of _ "[]"]) (simp add: logs_def)
lemma expansion_cacheStep:
  shows "expandSingleReference e fuel reference st d m = Some (r, st') \<Longrightarrow> cacheStep e T st st'"
    and "expandRowLookups e fuel row st d m = Some (row', st') \<Longrightarrow> cacheStep e T st st'"
    and "expandEntries e fuel entries ev st d m = Some (ev', st') \<Longrightarrow> cacheStep e T st st'"
    and "expandItems e fuel items acc h st d m = Some (res, st') \<Longrightarrow> cacheStep e T st st'"
proof -
  let ?R = "\<lambda>(e :: 'a env) (a :: 'a session) (b :: 'a session). cacheStep e T a b"
  have r: "?R e st st" for e st by (rule cacheStep_refl)
  have t: "?R e a b \<Longrightarrow> ?R e b c \<Longrightarrow> ?R e a c" for e a b c by (rule cacheStep_trans)
  have res: "resolveReference e reference st = Some (r, st1) \<Longrightarrow> ?R e st st1"
    for e reference st r st1
    by (rule cacheStep_resolve)
  have mk: "?R e st (st\<lparr>processedRefs := insert key (processedRefs st)\<rparr>)" for e st key
    by (rule cacheStep_mark)
  have lg: "?R e st (logs (Debug_ExpandedRef rowId depth) st)" for e st rowId depth
    by (rule cacheStep_logs) (simp add: fetchedTable_def)
  show "expandSingleReference e fuel reference st d m = Some (r, st') \<Longrightarrow> cacheStep e T st st'"
    by (rule expansion_relates(1) [where R = ?R, OF r t res mk lg])
  show "expandRowLookups e fuel row st d m = Some (row', st') \<Longrightarrow> cacheStep e T st st'"
    by (rule expansion_relates(2) [where R = ?R, OF r t res mk lg])
  show "expandEntries e fuel entries ev st d m = Some (ev', st') \<Longrightarrow> cacheStep e T st st'"
    by (rule expansion_relates(3) [where R = ?R, OF r t res mk lg])
  show "expandItems e fuel items acc h st d m = Some (res, st') \<Longrightarrow> cacheStep e T st st'"
    by (rule expansion_relates(4) [where R = ?R, OF r t res mk lg])
qed

lemma expandRows_cacheStep:
  "expandRows e fuel rows expandedRows st m = Some (rows', st') \<Longrightarrow> cacheStep e T st st'"
proof (induction rows arbitrary: expandedRows st)
  case Nil
  then show ?case by (simp add: cacheStep_refl)
next
  case (Cons row rows)
  from Cons.prems obtain row' st1 where
    one: "expandRowLookups e fuel row (st\<lparr>processedRefs := {}\<rparr>) 0 m = Some (row', st1)"
    and rest: "expandRows e fuel rows (expandedRows @ [row']) st1 m = Some (rows', st')"
    by (auto split: option.splits)
  have "cacheStep e T st (st\<lparr>processedRefs := {}\<rparr>)" by (rule cacheStep_mark)
  moreover have "cacheStep e T (st\<lparr>processedRefs := {}\<rparr>) st1"
    by (rule expansion_cacheStep(2) [OF one])
  moreover have "cacheStep e T st1 st'" by (rule Cons.IH [OF rest])
  ultimately show ?case by (blast intro: cacheStep_trans)
qed

section \<open>Claims about the caches\<close>

text \<open>
  C3, as the claim states it, fails: the rows \<open>R1\<close> and \<open>R2\<close> reference the rows
  \<open>a\<close> and \<open>b\<close> of the same table \<open>U\<close>, whose fetch is answered with 404; the table is
  requested once for each of the two rows and the request counter ends at 2.
\<close>

theorem failing_table_fetched_for_each_row:
  "expandLookups cyclicEnv 1
     [mkRow ''R1'' [(''c-1'', mkRef ''U'' ''a'')], mkRow ''R2'' [(''c-1'', mkRef ''U'' ''b'')]] 1
   = Some ([mkRow ''R1'' [(''c-1'', mkRef ''U'' ''a'')],
            mkRow ''R2'' [(''c-1'', mkRef ''U'' ''b'')]],
           [Info_ExpandingLookups 1 2,
            Debug_FetchingPage ''U'' 1,
            Warn_FailedToFetchTable ''U'' (FailedToFetch 404 ''Not Found''),
            Debug_FetchingPage ''U'' 1,
            Warn_FailedToFetchTable ''U'' (FailedToFetch 404 ''Not Found''),
            Info_ExpansionCompleted 2 0 0, Debug_SampleRow ''R1''])
   \<and> count_list
        (tableFetches
           [Info_ExpandingLookups 1 2,
            Debug_FetchingPage ''U'' 1,
            Warn_FailedToFetchTable ''U'' (FailedToFetch 404 ''Not Found''),
            Debug_FetchingPage ''U'' 1,
            Warn_FailedToFetchTable ''U'' (FailedToFetch 404 ''Not Found''),
            Info_ExpansionCompleted 2 0 0, Debug_SampleRow ''R1''])
        ''U'' = 2"
  by code_simp

text \<open>
  C3, as the code has it. The two caches are created once per call of \<open>expandLookups\<close>
  and carried from row to row of the batch: what is in the table cache or in the row
  cache before a row is still there after every later row, and a table that is in the
  table cache is not fetched again. The closing line of the log reports as many requests
  as tables were fetched. A table whose fetch succeeds enters the table cache, so when
  every fetch of a table succeeds, that table is fetched at most once in the session,
  however many rows reference rows of it. (A fetch that fails leaves the table cache as it
  was, and the next reference to another row of that table fetches the table again.)
\<close>

theorem table_cache_reused:
  "(expandRows e fuel rows expandedRows st maxDepth = Some (rows', st') \<longrightarrow>
      (\<exists>ts. tableFetches (logged st') = tableFetches (logged st) @ ts
           \<and> requestCount st' = requestCount st + length ts
           \<and> (\<forall>t rowsMap. map_of (tableCache st) t = Some rowsMap \<longrightarrow>
                 map_of (tableCache st') t = Some rowsMap \<and> t \<notin> set ts)
           \<and> (\<forall>k v. map_of (cache st) k = Some v \<longrightarrow> map_of (cache st') k = Some v)))
   \<and> (expandLookups e fuel rows maxDepth = Some (rows'', lg) \<longrightarrow>
        (0 < maxDepth \<longrightarrow>
           (\<exists>pre post tables cachedRows.
               lg = pre @ Info_ExpansionCompleted (length (tableFetches lg)) tables cachedRows
                          # post))
        \<and> ((\<forall>k. \<exists>rowsMap new.
               fetchTableData (pageFuel e) (api e k T) T [] = Some (Inr rowsMap, new))
            \<longrightarrow> count_list (tableFetches lg) T \<le> 1))"
proof -
  have batch: "\<exists>ts. tableFetches (logged st') = tableFetches (logged st) @ ts
           \<and> requestCount st' = requestCount st + length ts
           \<and> (\<forall>t rowsMap. map_of (tableCache st) t = Some rowsMap \<longrightarrow>
                 map_of (tableCache st') t = Some rowsMap \<and> t \<notin> set ts)
           \<and> (\<forall>k v. map_of (cache st) k = Some v \<longrightarrow> map_of (cache st') k = Some v)"
    if "expandRows e fuel rows expandedRows st maxDepth = Some (rows', st')"
    using expandRows_cacheStep [OF that, of T] unfolding cacheStep_def by blast
  have whole: "(0 < maxDepth \<longrightarrow>
           (\<exists>pre post tables cachedRows.
               lg = pre @ Info_ExpansionCompleted (length (tableFetches lg)) tables cachedRows
                          # post))
        \<and> ((\<forall>k. \<exists>rowsMap new.
               fetchTableData (pageFuel e) (api e k T) T [] = Some (Inr rowsMap, new))
            \<longrightarrow> count_list (tableFetches lg) T \<le> 1)"
    if run: "expandLookups e fuel rows maxDepth = Some (rows'', lg)"
  proof (cases "maxDepth \<le> 0")
    case True
    with run show ?thesis by (simp add: expandLookups_def)
  next
    case False
    let ?st0 = "newSession [Info_ExpandingLookups maxDepth (length rows)] :: 'a session"
    from False run obtain stn where
      rows: "expandRows e fuel rows [] ?st0 maxDepth = Some (rows'', stn)"
      and lg: "lg = logged stn
                 @ [Info_ExpansionCompleted (requestCount stn) (length (tableCache stn))
                      (cachedRowCount (tableCache stn))]
                 @ (if rows'' \<noteq> [] then [Debug_SampleRow (row_id (hd rows''))] else [])"
      by (auto simp: expandLookups_def split: option.splits)
    from expandRows_cacheStep [OF rows, of T] obtain ts where
      ts: "tableFetches (logged stn) = ts" "requestCount stn = length ts"
      and once: "(\<forall>k. \<exists>rowsMap new.
                   fetchTableData (pageFuel e) (api e k T) T [] = Some (Inr rowsMap, new))
                 \<longrightarrow> count_list ts T \<le> 1"
      unfolding cacheStep_def by (auto simp: newSession_def fetchedTable_def)
    have all: "tableFetches lg = ts"
      unfolding lg using ts(1) by (simp add: fetchedTable_def tableFetches_def)
    have "lg = logged stn
                 @ Info_ExpansionCompleted (length (tableFetches lg)) (length (tableCache stn))
                      (cachedRowCount (tableCache stn))
                 # (if rows'' \<noteq> [] then [Debug_SampleRow (row_id (hd rows''))] else [])"
      unfolding all using lg ts(2) by simp
    then have "\<exists>pre post tables cachedRows.
               lg = pre @ Info_ExpansionCompleted (length (tableFetches lg)) tables cachedRows
                          # post"
      by blast
    with once all show ?thesis by simp
  qed
  show ?thesis
    using batch whole by blast
qed

theorem table_cache_reused_witness:
  "expandRows cyclicEnv 1
     [mkRow ''R1'' [(''c-1'', mkRef ''T'' ''C'')], mkRow ''R2'' [(''c-1'', mkRef ''T'' ''C'')]]
     [] sessionAfterC 1
   = Some ([mkRow ''R1'' [(''c-1'', expandedReference (mkRef ''T'' ''C'') rowC)],
            mkRow ''R2'' [(''c-1'', expandedReference (mkRef ''T'' ''C'') rowC)]],
           sessionAfterC
             \<lparr>logged := logged sessionAfterC
                @ [Debug_FoundInTableCache ''T:C'', Debug_ExpandedRef ''C'' 0,
                   Debug_FoundInTableCache ''T:C'', Debug_ExpandedRef ''C'' 0]\<rparr>)
   \<and> map_of (tableCache sessionAfterC) ''T'' = Some [(''A'', rowA), (''B'', rowB), (''C'', rowC)]
   \<and> map_of (cache sessionAfterC) ''T:C'' = Some (Some rowC)
   \<and> expandLookups cyclicEnv 1
       [mkRow ''R1'' [(''c-1'', mkRef ''T'' ''C'')], mkRow ''R2'' [(''c-1'', mkRef ''T'' ''C'')]] 1
     = Some ([mkRow ''R1'' [(''c-1'', expandedReference (mkRef ''T'' ''C'') rowC)],
              mkRow ''R2'' [(''c-1'', expandedReference (mkRef ''T'' ''C'') rowC)]],
             [Info_ExpandingLookups 1 2, Debug_FetchingPage ''T'' 1,
              Debug_FetchedRows 3 ''T'' 3, Info_LoadedTable ''T'' 3,
              Debug_ExpandedRef ''C'' 0, Debug_FoundInTableCache ''T:C'',
              Debug_ExpandedRef ''C'' 0, Info_ExpansionCompleted 1 1 3,
              Debug_SampleRow ''R1''])
   \<and> (0::int) < 1
   \<and> (\<forall>k. \<exists>rowsMap new.
         fetchTableData (pageFuel cyclicEnv) (api cyclicEnv k ''T'') ''T'' []
         = Some (Inr rowsMap, new))
   \<and> (\<exists>ts. tableFetches
               (logged (sessionAfterC
                  \<lparr>logged := logged sessionAfterC
                     @ [Debug_FoundInTableCache ''T:C'', Debug_ExpandedRef ''C'' 0,
                        Debug_FoundInTableCache ''T:C'', Debug_ExpandedRef ''C'' 0]\<rparr>))
             = tableFetches (logged sessionAfterC) @ ts
             \<and> ''T'' \<notin> set ts)
   \<and> count_list
        (tableFetches
           [Info_ExpandingLookups 1 2, Debug_FetchingPage ''T'' 1,
            Debug_FetchedRows 3 ''T'' 3, Info_LoadedTable ''T'' 3,
            Debug_ExpandedRef ''C'' 0, Debug_FoundInTableCache ''T:C'',
            Debug_ExpandedRef ''C'' 0, Info_ExpansionCompleted 1 1 3,
            Debug_SampleRow ''R1''])
        ''T'' \<le> 1"
proof -
  let ?rows = "[mkRow ''R1'' [(''c-1'', mkRef ''T'' ''C'')],
                mkRow ''R2'' [(''c-1'', mkRef ''T'' ''C'')]]"
  let ?rows' = "[mkRow ''R1'' [(''c-1'', expandedReference (mkRef ''T'' ''C'') rowC)],
                 mkRow ''R2'' [(''c-1'', expandedReference (mkRef ''T'' ''C'') rowC)]]"
  let ?st' = "sessionAfterC
             \<lparr>logged := logged sessionAfterC
                @ [Debug_FoundInTableCache ''T:C'', Debug_ExpandedRef ''C'' 0,
                   Debug_FoundInTableCache ''T:C'', Debug_ExpandedRef ''C'' 0]\<rparr>"
  let ?lg = "[Info_ExpandingLookups 1 2, Debug_FetchingPage ''T'' 1,
              Debug_FetchedRows 3 ''T'' 3, Info_LoadedTable ''T'' 3,
              Debug_ExpandedRef ''C'' 0, Debug_FoundInTableCache ''T:C'',
              Debug_ExpandedRef ''C'' 0, Info_ExpansionCompleted 1 1 3,
              Debug_SampleRow ''R1'']"
  have h1: "expandRows cyclicEnv 1 ?rows [] sessionAfterC 1 = Some (?rows', ?st')"
    by code_simp
  have h2: "map_of (tableCache sessionAfterC) ''T''
            = Some [(''A'', rowA), (''B'', rowB), (''C'', rowC)]"
    by (simp add: sessionAfterC_def)
  have h3: "map_of (cache sessionAfterC) ''T:C'' = Some (Some rowC)"
    by (simp add: sessionAfterC_def)
  have h4: "expandLookups cyclicEnv 1 ?rows 1 = Some (?rows', ?lg)"
    by code_simp
  have h5: "(0::int) < 1"
    by simp
  have h6: "\<forall>k. \<exists>rowsMap new.
              fetchTableData (pageFuel cyclicEnv) (api cyclicEnv k ''T'') ''T'' []
              = Some (Inr rowsMap, new)"
    by (simp add: cyclicEnv_def cyclicApi_def fetchTableData_def truthy_def Let_def)
  note inst = table_cache_reused
    [where e = cyclicEnv and fuel = 1 and rows = ?rows and expandedRows = "[]"
       and st = sessionAfterC and maxDepth = 1 and rows' = ?rows' and st' = ?st'
       and rows'' = ?rows' and lg = ?lg and T = "''T''"]
  from inst h1 obtain ts where
    ts: "tableFetches (logged ?st') = tableFetches (logged sessionAfterC) @ ts"
    and kept: "\<forall>t rowsMap. map_of (tableCache sessionAfterC) t = Some rowsMap \<longrightarrow>
                 map_of (tableCache ?st') t = Some rowsMap \<and> t \<notin> set ts"
    by blast
  from kept h2 have "''T'' \<notin> set ts" by blast
  with ts have c1: "\<exists>ts. tableFetches (logged ?st') = tableFetches (logged sessionAfterC) @ ts
                         \<and> ''T'' \<notin> set ts"
    by blast
  from inst h4 h6 have c2: "count_list (tableFetches ?lg) ''T'' \<le> 1"
    by blast
  from h1 h2 h3 h4 h5 h6 c1 c2 show ?thesis
    by (intro conjI) blast+
qed

end
